theory Spec2Isabelle
  imports Main
begin

section \<open>The open file and its buffered reader\<close>

text \<open>
  A Go \<open>[]byte\<close> is a list of 8-bit characters; a Go \<open>string\<close> (the patterns) is a
  \<open>string\<close>. The newline byte is \<open>CHR 0x0A\<close>, the zero byte \<open>CHR 0x00\<close>.
\<close>

type_synonym bytes = "char list"

text \<open>
  The values an operation of \<open>edit.go\<close> can return as its \<open>error\<close>:
  \<open>errComment\<close> (the package's sentinel), the syntax error of \<open>regexp.Compile\<close> for a
  pattern, \<open>io.EOF\<close> from \<open>os.File.Read\<close>, \<open>EINVAL\<close> from a seek to a negative offset,
  and the run-time panic of \<open>make\<close> with a negative length.
\<close>

datatype error = errComment | ErrSyntax string | EOF | EINVAL | Panic

text \<open>The system calls made on the handle are recorded, oldest first.\<close>

datatype syscall = SysStat | SysSeek int | SysRead nat | SysWrite bytes | SysTruncate nat

record ConfEditer =
  conf_Comment :: bytes
  conf_Mode :: nat

text \<open>
  \<open>Editer\<close>: the field \<open>file\<close> is an open regular file, given by its content \<open>fdata\<close> and
  the offset \<open>fpos\<close> of the handle; of the field \<open>buf\<close> only the \<open>bufio.Reader\<close> is ever used,
  given by the bytes \<open>rbuf\<close> it has fetched from the file and not yet handed out; \<open>conf\<close> is
  the pointer to the configuration (\<open>None\<close> for \<open>nil\<close>). The operating system is taken to
  report no fault of its own: the errors left are those listed above.
\<close>

record Editer =
  fdata :: bytes
  fpos :: nat
  rbuf :: bytes
  conf :: "ConfEditer option"
  calls :: "syscall list"

text \<open>
  \<open>NewEdit\<close> on a file whose content is \<open>data\<close>. The backup taken first under \<open>ModBackup\<close>
  copies the file elsewhere and is left out.
\<close>

definition NewEdit :: "bytes \<Rightarrow> ConfEditer option \<Rightarrow> Editer" where
  "NewEdit data c = \<lparr>fdata = data, fpos = 0, rbuf = [], conf = c, calls = []\<rparr>"

definition file_Stat :: "Editer \<Rightarrow> nat \<times> Editer" where
  "file_Stat ed = (length (fdata ed), ed\<lparr>calls := calls ed @ [SysStat]\<rparr>)"

text \<open>\<open>file.Seek(off, io.SeekStart)\<close>.\<close>

definition file_Seek :: "int \<Rightarrow> Editer \<Rightarrow> error option \<times> Editer" where
  "file_Seek off ed =
     (let ed1 = ed\<lparr>calls := calls ed @ [SysSeek off]\<rparr>
      in if off < 0 then (Some EINVAL, ed1) else (None, ed1\<lparr>fpos := nat off\<rparr>))"

text \<open>
  \<open>file.Read(p)\<close> for a buffer \<open>p\<close> fresh from \<open>make([]byte, n)\<close>: the result is the buffer
  after the call and the error. A read of no bytes returns at once; otherwise the bytes
  between the offset and the end of the file are copied, at most \<open>n\<close> of them, the rest of
  the buffer keeps its zero bytes, and a read that obtains nothing is \<open>io.EOF\<close>.
\<close>

definition file_Read :: "nat \<Rightarrow> Editer \<Rightarrow> (bytes \<times> error option) \<times> Editer" where
  "file_Read n ed =
     (if n = 0 then (([], None), ed)
      else
        let got = take n (drop (fpos ed) (fdata ed));
            ed1 = ed\<lparr>fpos := fpos ed + length got, calls := calls ed @ [SysRead n]\<rparr>
        in ((got @ replicate (n - length got) (CHR 0x00),
             if got = [] then Some EOF else None), ed1))"

text \<open>\<open>file.Write(b)\<close>: overwrites from the offset on, extending the file where needed.\<close>

definition file_Write :: "bytes \<Rightarrow> Editer \<Rightarrow> nat \<times> Editer" where
  "file_Write b ed =
     (let old = fdata ed; p = fpos ed;
          new = (if b = [] then old
                 else take p old @ replicate (p - length old) (CHR 0x00) @ b
                      @ drop (p + length b) old)
      in (length b, ed\<lparr>fdata := new, fpos := p + length b, calls := calls ed @ [SysWrite b]\<rparr>))"

definition file_Truncate :: "nat \<Rightarrow> Editer \<Rightarrow> Editer" where
  "file_Truncate n ed =
     ed\<lparr>fdata := take n (fdata ed) @ replicate (n - length (fdata ed)) (CHR 0x00),
        calls := calls ed @ [SysTruncate n]\<rparr>"

section \<open>Commit and Delete\<close>

definition rewrite :: "bytes \<Rightarrow> Editer \<Rightarrow> error option \<times> Editer" where
  "rewrite b ed =
     (case file_Seek 0 ed of
        (Some err, ed1) \<Rightarrow> (Some err, ed1)
      | (None, ed1) \<Rightarrow>
          (case file_Write b ed1 of
             (n, ed2) \<Rightarrow> (None, file_Truncate n ed2)))"

text \<open>
  \<open>Delete(begin, end)\<close>. The offsets are \<open>int64\<close> in the source; they are integers here,
  the differences computed stay far from the 64-bit range for offsets within a file.
  The second buffer is made with \<open>stat.Size()-(end-begin)\<close> bytes, as in the source.
\<close>

definition Delete :: "int \<Rightarrow> int \<Rightarrow> Editer \<Rightarrow> error option \<times> Editer" where
  "Delete begin' end' ed =
     (case file_Stat ed of (fsize, ed1) \<Rightarrow>
      (case file_Seek 0 ed1 of
         (Some err, ed2) \<Rightarrow> (Some err, ed2)
       | (None, ed2) \<Rightarrow>
           if begin' < 0 then (Some Panic, ed2)
           else
             (case file_Read (nat begin') ed2 of
                ((fileData, Some err), ed3) \<Rightarrow> (Some err, ed3)
              | ((fileData, None), ed3) \<Rightarrow>
                  let buf = fileData in
                  if int fsize - (end' - begin') < 0 then (Some Panic, ed3)
                  else
                    (case file_Seek end' ed3 of
                       (Some err, ed4) \<Rightarrow> (Some err, ed4)
                     | (None, ed4) \<Rightarrow>
                         (case file_Read (nat (int fsize - (end' - begin'))) ed4 of
                            ((fileData2, Some err), ed5) \<Rightarrow> (Some err, ed5)
                          | ((fileData2, None), ed5) \<Rightarrow>
                              rewrite (buf @ fileData2) ed5)))))"

section \<open>The regexp package\<close>

text \<open>
  The package \<open>regexp\<close> of the Go library is not part of the repository. It is a parameter
  of the model: \<open>Compile\<close> is \<open>regexp.Compile\<close> (\<open>None\<close> when the pattern is rejected),
  \<open>Exec re src pos\<close> is the leftmost match of \<open>re\<close> in \<open>src\<close> that starts at \<open>pos\<close> or
  later, as the pair of its start and end offsets, and \<open>RuneWidth\<close> is the number of bytes
  of the first rune of its argument (\<open>utf8.DecodeRune\<close>), \<open>0\<close> for no bytes.
\<close>

record 're regexp_pkg =
  Compile :: "string \<Rightarrow> 're option"
  Exec :: "'re \<Rightarrow> bytes \<Rightarrow> nat \<Rightarrow> (nat \<times> nat) option"
  RuneWidth :: "bytes \<Rightarrow> nat"

text \<open>
  The library only answers with a span of the input at or after the search position; an
  answer of the parameter that is not one counts as no match.
\<close>

definition doExecute :: "'re regexp_pkg \<Rightarrow> 're \<Rightarrow> bytes \<Rightarrow> nat \<Rightarrow> (nat \<times> nat) option" where
  "doExecute L re src pos =
     (case Exec L re src pos of
        None \<Rightarrow> None
      | Some (a0, a1) \<Rightarrow>
          if pos \<le> a0 \<and> a0 \<le> a1 \<and> a1 \<le> length src then Some (a0, a1) else None)"

text \<open>\<open>re.Match(b)\<close>: is there a match anywhere in \<open>b\<close>.\<close>

definition Match :: "'re regexp_pkg \<Rightarrow> 're \<Rightarrow> bytes \<Rightarrow> bool" where
  "Match L re b = (doExecute L re b 0 \<noteq> None)"

text \<open>The Go slice \<open>src[i:j]\<close>.\<close>

definition slice :: "bytes \<Rightarrow> nat \<Rightarrow> nat \<Rightarrow> bytes" where
  "slice src i j = take (j - i) (drop i src)"

text \<open>
  The end of the loop body of the library's \<open>replaceAll\<close>: advance past the match, and
  by one rune at least.
\<close>

definition nextPos :: "nat \<Rightarrow> nat \<Rightarrow> nat \<Rightarrow> nat" where
  "nextPos width searchPos a1 =
     (if searchPos + width > a1 then searchPos + width
      else if searchPos + 1 > a1 then searchPos + 1
      else a1)"

lemma nextPos_gt: "searchPos \<le> a1 \<Longrightarrow> searchPos < nextPos width searchPos a1"
  by (simp add: nextPos_def)

lemma nextPos_measure:
  "searchPos \<le> a1 \<Longrightarrow> searchPos \<le> n \<Longrightarrow> Suc n - nextPos width searchPos a1 < Suc n - searchPos"
  using nextPos_gt [of searchPos a1 width] by linarith

lemma doExecute_range:
  "doExecute L re src pos = Some (a0, a1) \<Longrightarrow> pos \<le> a0 \<and> a0 \<le> a1 \<and> a1 \<le> length src"
  by (auto simp: doExecute_def split: option.splits if_splits)

text \<open>
  The loop of \<open>Regexp.replaceAll\<close>, which \<open>ReplaceAllFunc\<close> runs from
  \<open>lastMatchEnd = 0\<close>, \<open>searchPos = 0\<close> and an empty buffer. The function \<open>repl\<close> given to
  \<open>ReplaceAllFunc\<close> is a closure over variables of its caller: it takes their values
  \<open>st\<close> and returns the new ones with its result. It is not called for an empty match
  right after another match.
\<close>

function replaceAll ::
  "'re regexp_pkg \<Rightarrow> 're \<Rightarrow> bytes \<Rightarrow> (bytes \<Rightarrow> 's \<Rightarrow> bytes \<times> 's) \<Rightarrow> nat \<Rightarrow> nat \<Rightarrow> bytes \<Rightarrow> 's
     \<Rightarrow> bytes \<times> 's" where
  "replaceAll L re src repl lastMatchEnd searchPos buf st =
     (if searchPos \<le> length src then
        (case doExecute L re src searchPos of
           None \<Rightarrow> (buf @ drop lastMatchEnd src, st)
         | Some (a0, a1) \<Rightarrow>
             (case (if a1 > lastMatchEnd \<or> a0 = 0
                    then (case repl (slice src a0 a1) st of
                            (out, st1) \<Rightarrow> (buf @ slice src lastMatchEnd a0 @ out, st1))
                    else (buf @ slice src lastMatchEnd a0, st)) of
                (buf1, st1) \<Rightarrow>
                  replaceAll L re src repl a1
                    (nextPos (RuneWidth L (drop searchPos src)) searchPos a1) buf1 st1))
      else (buf @ drop lastMatchEnd src, st))"
  by pat_completeness auto
termination
  by (relation "measure (\<lambda>(L, re, src, repl, lastMatchEnd, searchPos, buf, st).
                    Suc (length src) - searchPos)")
     (auto dest!: doExecute_range intro!: nextPos_measure)

definition ReplaceAllFunc ::
  "'re regexp_pkg \<Rightarrow> 're \<Rightarrow> bytes \<Rightarrow> (bytes \<Rightarrow> 's \<Rightarrow> bytes \<times> 's) \<Rightarrow> 's \<Rightarrow> bytes \<times> 's" where
  "ReplaceAllFunc L re src repl st = replaceAll L re src repl 0 0 [] st"

section \<open>The buffered reader\<close>

text \<open>
  The reader fetches from the file when it has not enough. The fetches the library makes
  one after the other, 4096 bytes at a time, are taken together: one \<open>fill\<close> brings
  everything between the offset and the end of the file. Nothing writes to the file
  while an operation reads, so the lines handed out are the same.
\<close>

definition fill :: "Editer \<Rightarrow> Editer" where
  "fill ed =
     (let got = drop (fpos ed) (fdata ed)
      in ed\<lparr>rbuf := rbuf ed @ got, fpos := fpos ed + length got,
            calls := calls ed @ [SysRead 4096]\<rparr>)"

text \<open>
  \<open>ed.buf.ReadBytes(delim)\<close>: the bytes up to and including the first \<open>delim\<close>; when the
  file ends before a \<open>delim\<close>, the bytes that were left, with \<open>io.EOF\<close>.
\<close>

definition ReadBytes :: "char \<Rightarrow> Editer \<Rightarrow> (bytes \<times> error option) \<times> Editer" where
  "ReadBytes delim ed =
     (let ed1 = (if delim \<in> set (rbuf ed) then ed else fill ed);
          line = takeWhile (\<lambda>c. c \<noteq> delim) (rbuf ed1)
      in if delim \<in> set (rbuf ed1)
         then ((line @ [delim], None), ed1\<lparr>rbuf := drop (Suc (length line)) (rbuf ed1)\<rparr>)
         else ((rbuf ed1, Some EOF), ed1\<lparr>rbuf := []\<rparr>))"

text \<open>\<open>ioutil.ReadAll(ed.buf)\<close>: everything up to the end of the file, and no error.\<close>

definition ReadAll :: "Editer \<Rightarrow> (bytes \<times> error option) \<times> Editer" where
  "ReadAll ed = (let ed1 = fill ed in ((rbuf ed1, None), ed1\<lparr>rbuf := []\<rparr>))"

text \<open>What is left to read: the measure of the line loops.\<close>

definition unread :: "Editer \<Rightarrow> nat" where
  "unread ed = length (rbuf ed) + (length (fdata ed) - fpos ed)"

lemma unread_fill: "unread (fill ed) = unread ed"
  by (simp add: unread_def fill_def Let_def)

lemma takeWhile_lt_length: "d \<in> set xs \<Longrightarrow> length (takeWhile (\<lambda>c. c \<noteq> d) xs) < length xs"
  by (induction xs) auto

lemma ReadBytes_unread:
  assumes "ReadBytes d ed = ((line, err), ed1)" "err \<noteq> Some EOF"
  shows "unread ed1 < unread ed"
proof -
  define ed0 where "ed0 = (if d \<in> set (rbuf ed) then ed else fill ed)"
  have u: "unread ed0 = unread ed" by (simp add: ed0_def unread_fill)
  from assms have mem: "d \<in> set (rbuf ed0)"
    by (auto simp: ReadBytes_def Let_def ed0_def split: if_splits)
  with assms have "ed1 = ed0\<lparr>rbuf := drop (Suc (length (takeWhile (\<lambda>c. c \<noteq> d) (rbuf ed0)))) (rbuf ed0)\<rparr>"
    by (auto simp: ReadBytes_def Let_def ed0_def split: if_splits)
  moreover from mem have "rbuf ed0 \<noteq> []" by auto
  ultimately have "unread ed1 < unread ed0"
    by (simp add: unread_def)
  with u show ?thesis by simp
qed

section \<open>Replace, line by line or over the whole content\<close>

record Replacer =
  r_Search :: string
  r_Replace :: string

record ReplacerAtLine =
  l_Line :: string
  l_Search :: string
  l_Replace :: string

text \<open>
  The function literal handed to \<open>ReplaceAllFunc\<close> in \<open>genReplace\<close> and in
  \<open>genReplaceAtLine\<close>. It closes over \<open>isNew\<close> and over the counter (\<open>i\<close>, \<open>j\<close>) of its
  caller; \<open>repl\<close> is \<open>repl\<close>, respectively \<open>allRepl[i]\<close>. The counter is a Go \<open>int\<close>; below
  zero it only ever decreases, by one for each match in a content held in memory, and
  does not reach the lower end of its range.
\<close>

definition replFunc :: "bytes \<Rightarrow> bytes \<Rightarrow> bool \<times> int \<Rightarrow> bytes \<times> (bool \<times> int)" where
  "replFunc repl s st =
     (case st of (isNew, i) \<Rightarrow>
        (let isNew1 = (if \<not> isNew then True else isNew)
         in if i \<noteq> 0 then (repl, (isNew1, i - 1)) else (s, (isNew1, i))))"

text \<open>The loop \<open>for _, v := range r\<close> of \<open>genReplace\<close>.\<close>

fun genReplace_range ::
  "'re regexp_pkg \<Rightarrow> Replacer list \<Rightarrow> int \<Rightarrow> bytes \<Rightarrow> bool \<Rightarrow> error + bytes \<times> bool" where
  "genReplace_range L [] n content isNew = Inr (content, isNew)"
| "genReplace_range L (v # r) n content isNew =
     (case Compile L (r_Search v) of
        None \<Rightarrow> Inl (ErrSyntax (r_Search v))
      | Some reSearch \<Rightarrow>
          (let i = n; repl = r_Replace v
           in case ReplaceAllFunc L reSearch content (replFunc repl) (isNew, i) of
                (content1, (isNew1, i1)) \<Rightarrow> genReplace_range L r n content1 isNew1))"

definition genReplace ::
  "'re regexp_pkg \<Rightarrow> Replacer list \<Rightarrow> int \<Rightarrow> Editer \<Rightarrow> error option \<times> Editer" where
  "genReplace L r n ed =
     (if n = 0 then (None, ed)
      else
        (case file_Seek 0 ed of
           (Some err, ed1) \<Rightarrow> (Some err, ed1)
         | (None, ed1) \<Rightarrow>
             (case ReadAll ed1 of
                ((content, Some err), ed2) \<Rightarrow> (Some err, ed2)
              | ((content, None), ed2) \<Rightarrow>
                  (case genReplace_range L r n content False of
                     Inl err \<Rightarrow> (Some err, ed2)
                   | Inr (content1, isNew) \<Rightarrow>
                       if isNew then rewrite content1 ed2 else (None, ed2)))))"

text \<open>
  The first loop of \<open>genReplaceAtLine\<close>: the three slices \<open>allReLine\<close>, \<open>allReSearch\<close> and
  \<open>allRepl\<close>, as one list of triples.
\<close>

fun cacheRegexps ::
  "'re regexp_pkg \<Rightarrow> ReplacerAtLine list \<Rightarrow> error + ('re \<times> 're \<times> bytes) list" where
  "cacheRegexps L [] = Inr []"
| "cacheRegexps L (v # r) =
     (case Compile L (l_Line v) of
        None \<Rightarrow> Inl (ErrSyntax (l_Line v))
      | Some reLine \<Rightarrow>
          (case Compile L (l_Search v) of
             None \<Rightarrow> Inl (ErrSyntax (l_Search v))
           | Some reSearch \<Rightarrow>
               (case cacheRegexps L r of
                  Inl err \<Rightarrow> Inl err
                | Inr all \<Rightarrow> Inr ((reLine, reSearch, l_Replace v) # all))))"

text \<open>The loop \<open>for i := range r\<close> over one line.\<close>

fun replaceLine ::
  "'re regexp_pkg \<Rightarrow> ('re \<times> 're \<times> bytes) list \<Rightarrow> int \<Rightarrow> bytes \<Rightarrow> bool \<Rightarrow> bytes \<times> bool" where
  "replaceLine L [] n line isNew = (line, isNew)"
| "replaceLine L ((reLine, reSearch, repl) # all) n line isNew =
     (if Match L reLine line
      then (let j = n
            in case ReplaceAllFunc L reSearch line (replFunc repl) (isNew, j) of
                 (line1, (isNew1, j1)) \<Rightarrow> replaceLine L all n line1 isNew1)
      else replaceLine L all n line isNew)"

text \<open>
  The loop over the lines. It is left at the first \<open>io.EOF\<close> of \<open>ReadBytes\<close>, before the
  bytes returned with it are looked at.
\<close>

function genReplaceAtLine_lines ::
  "'re regexp_pkg \<Rightarrow> ('re \<times> 're \<times> bytes) list \<Rightarrow> int \<Rightarrow> Editer \<Rightarrow> bytes \<Rightarrow> bool
     \<Rightarrow> (bytes \<times> bool) \<times> Editer" where
  "genReplaceAtLine_lines L all n ed buf isNew =
     (case ReadBytes (CHR 0x0A) ed of
        ((line, err), ed1) \<Rightarrow>
          if err = Some EOF then ((buf, isNew), ed1)
          else
            (case replaceLine L all n line isNew of
               (line1, isNew1) \<Rightarrow> genReplaceAtLine_lines L all n ed1 (buf @ line1) isNew1))"
  by pat_completeness auto
termination
  by (relation "measure (\<lambda>(L, all, n, ed, buf, isNew). unread ed)")
     (auto intro: ReadBytes_unread [OF sym])

definition genReplaceAtLine ::
  "'re regexp_pkg \<Rightarrow> ReplacerAtLine list \<Rightarrow> int \<Rightarrow> Editer \<Rightarrow> error option \<times> Editer" where
  "genReplaceAtLine L r n ed =
     (if n = 0 then (None, ed)
      else
        (case file_Seek 0 ed of
           (Some err, ed1) \<Rightarrow> (Some err, ed1)
         | (None, ed1) \<Rightarrow>
             (case cacheRegexps L r of
                Inl err \<Rightarrow> (Some err, ed1)
              | Inr all \<Rightarrow>
                  (case genReplaceAtLine_lines L all n ed1 [] False of
                     ((buf, isNew), ed2) \<Rightarrow>
                       if isNew then rewrite buf ed2 else (None, ed2)))))"

definition Replace :: "'re regexp_pkg \<Rightarrow> Replacer list \<Rightarrow> Editer \<Rightarrow> error option \<times> Editer" where
  "Replace L r ed = genReplace L r (- 1) ed"

definition ReplaceN ::
  "'re regexp_pkg \<Rightarrow> Replacer list \<Rightarrow> int \<Rightarrow> Editer \<Rightarrow> error option \<times> Editer" where
  "ReplaceN L r n ed = genReplace L r n ed"

definition ReplaceAtLine ::
  "'re regexp_pkg \<Rightarrow> ReplacerAtLine list \<Rightarrow> Editer \<Rightarrow> error option \<times> Editer" where
  "ReplaceAtLine L r ed = genReplaceAtLine L r (- 1) ed"

definition ReplaceAtLineN ::
  "'re regexp_pkg \<Rightarrow> ReplacerAtLine list \<Rightarrow> int \<Rightarrow> Editer \<Rightarrow> error option \<times> Editer" where
  "ReplaceAtLineN L r n ed = genReplaceAtLine L r n ed"

section \<open>Comment and CommentOut\<close>

text \<open>The first loop of \<open>Comment\<close>: compile every pattern.\<close>

fun compileAll :: "'re regexp_pkg \<Rightarrow> string list \<Rightarrow> error + 're list" where
  "compileAll L [] = Inr []"
| "compileAll L (v # reLine) =
     (case Compile L v of
        None \<Rightarrow> Inl (ErrSyntax v)
      | Some re \<Rightarrow>
          (case compileAll L reLine of
             Inl err \<Rightarrow> Inl err
           | Inr all \<Rightarrow> Inr (re # all)))"

text \<open>
  The loop \<open>for _, v := range allReSearch\<close> over one line: the first pattern that matches
  puts \<open>char\<close> before the line and ends the loop.
\<close>

fun commentLine :: "'re regexp_pkg \<Rightarrow> 're list \<Rightarrow> bytes \<Rightarrow> bytes \<Rightarrow> bool \<Rightarrow> bytes \<times> bool" where
  "commentLine L [] char' line isNew = (line, isNew)"
| "commentLine L (v # all) char' line isNew =
     (if Match L v line then (char' @ line, (if \<not> isNew then True else isNew))
      else commentLine L all char' line isNew)"

function Comment_lines ::
  "'re regexp_pkg \<Rightarrow> 're list \<Rightarrow> bytes \<Rightarrow> Editer \<Rightarrow> bytes \<Rightarrow> bool \<Rightarrow> (bytes \<times> bool) \<times> Editer" where
  "Comment_lines L all char' ed buf isNew =
     (case ReadBytes (CHR 0x0A) ed of
        ((line, err), ed1) \<Rightarrow>
          if err = Some EOF then ((buf, isNew), ed1)
          else
            (case commentLine L all char' line isNew of
               (line1, isNew1) \<Rightarrow> Comment_lines L all char' ed1 (buf @ line1) isNew1))"
  by pat_completeness auto
termination
  by (relation "measure (\<lambda>(L, all, char', ed, buf, isNew). unread ed)")
     (auto intro: ReadBytes_unread [OF sym])

definition Comment :: "'re regexp_pkg \<Rightarrow> string list \<Rightarrow> Editer \<Rightarrow> error option \<times> Editer" where
  "Comment L reLine ed =
     (case conf ed of
        None \<Rightarrow> (Some errComment, ed)
      | Some c \<Rightarrow>
          if length (conf_Comment c) = 0 then (Some errComment, ed)
          else
            (case compileAll L reLine of
               Inl err \<Rightarrow> (Some err, ed)
             | Inr allReSearch \<Rightarrow>
                 (case file_Seek 0 ed of
                    (Some err, ed1) \<Rightarrow> (Some err, ed1)
                  | (None, ed1) \<Rightarrow>
                      (let char' = conf_Comment c @ '' ''
                       in case Comment_lines L allReSearch char' ed1 [] False of
                            ((buf, isNew), ed2) \<Rightarrow>
                              if isNew then rewrite buf ed2 else (None, ed2)))))"

definition CommentOut :: "'re regexp_pkg \<Rightarrow> string list \<Rightarrow> Editer \<Rightarrow> error option \<times> Editer" where
  "CommentOut L reLine ed =
     (case conf ed of
        None \<Rightarrow> (Some errComment, ed)
      | Some c \<Rightarrow>
          if length (conf_Comment c) = 0 then (Some errComment, ed)
          else
            (let allSearch =
                   map (\<lambda>v. \<lparr>l_Line = v,
                              l_Search = ''[[:space:]]*'' @ conf_Comment c @ ''[[:space:]]*'',
                              l_Replace = []\<rparr>) reLine
             in ReplaceAtLineN L allSearch 1 ed))"

declare replaceAll.simps [simp del]
declare genReplaceAtLine_lines.simps [simp del]
declare Comment_lines.simps [simp del]

section \<open>A fragment of the regexp syntax\<close>

text \<open>
  To run the operations on concrete files, the parameter is instantiated with a matcher
  for a fragment of the syntax of the library: an optional \<open>^\<close> at the start (the start
  of the text), then literal characters and the class \<open>[[:space:]]\<close>, each with an
  optional \<open>*\<close>. On this fragment the first match of the library is the leftmost one,
  a star taking as many characters as the rest of the pattern allows. Strings that use
  other operators of the syntax are outside the fragment and get no compiled pattern;
  among them are the patterns the library rejects, such as \<open>(\<close>, or a \<open>*\<close> with
  nothing before it or right after another \<open>*\<close>.
\<close>

datatype atom = Lit char | SpaceClass

datatype item = Once atom | Star atom

datatype re = RE bool "item list"

definition metachars :: "char list" where
  "metachars = CHR 0x5C # ''.+*?()|[]{}^$''"

definition parseAtom :: "string \<Rightarrow> (atom \<times> string) option" where
  "parseAtom s =
     (if take 11 s = ''[[:space:]]'' then Some (SpaceClass, drop 11 s)
      else
        (case s of
           [] \<Rightarrow> None
         | c # cs \<Rightarrow> if c \<in> set metachars then None else Some (Lit c, cs)))"

lemma parseAtom_shorter: "parseAtom s = Some (a, rest) \<Longrightarrow> length rest < length s"
  by (cases s) (auto simp: parseAtom_def split: if_splits)

function parseItems :: "string \<Rightarrow> item list option" where
  "parseItems s =
     (if s = [] then Some []
      else
        (case parseAtom s of
           None \<Rightarrow> None
         | Some (a, rest) \<Rightarrow>
             (if rest \<noteq> [] \<and> hd rest = CHR ''*''
              then map_option ((#) (Star a)) (parseItems (tl rest))
              else map_option ((#) (Once a)) (parseItems rest))))"
  by pat_completeness auto
termination
  by (relation "measure length") (auto dest!: parseAtom_shorter)

declare parseItems.simps [simp del]

definition re_compile :: "string \<Rightarrow> re option" where
  "re_compile s =
     (if s \<noteq> [] \<and> hd s = CHR ''^'' then map_option (RE True) (parseItems (tl s))
      else map_option (RE False) (parseItems s))"

text \<open>\<open>[[:space:]]\<close> is tab, newline, vertical tab, form feed, carriage return and space.\<close>

fun atom_ok :: "atom \<Rightarrow> char \<Rightarrow> bool" where
  "atom_ok (Lit c) x = (x = c)"
| "atom_ok SpaceClass x =
     (x \<in> set [CHR 0x09, CHR 0x0A, CHR 0x0B, CHR 0x0C, CHR 0x0D, CHR 0x20])"

text \<open>The length of the preferred match of the items at the start of the bytes.\<close>

fun matchHere :: "item list \<Rightarrow> bytes \<Rightarrow> nat option" where
  "matchHere [] s = Some 0"
| "matchHere (Once a # items) [] = None"
| "matchHere (Once a # items) (c # cs) =
     (if atom_ok a c then map_option Suc (matchHere items cs) else None)"
| "matchHere (Star a # items) [] = matchHere items []"
| "matchHere (Star a # items) (c # cs) =
     (if atom_ok a c
      then (case matchHere (Star a # items) cs of
              Some k \<Rightarrow> Some (Suc k)
            | None \<Rightarrow> matchHere items (c # cs))
      else matchHere items (c # cs))"

text \<open>The first offset, from \<open>off\<close> on, at which the items match; \<open>s\<close> is the input from \<open>off\<close>.\<close>

fun scanFrom :: "item list \<Rightarrow> bytes \<Rightarrow> nat \<Rightarrow> (nat \<times> nat) option" where
  "scanFrom items [] off =
     (case matchHere items [] of Some k \<Rightarrow> Some (off, off + k) | None \<Rightarrow> None)"
| "scanFrom items (c # cs) off =
     (case matchHere items (c # cs) of
        Some k \<Rightarrow> Some (off, off + k)
      | None \<Rightarrow> scanFrom items cs (Suc off))"

fun re_exec :: "re \<Rightarrow> bytes \<Rightarrow> nat \<Rightarrow> (nat \<times> nat) option" where
  "re_exec (RE anchored items) src pos =
     (if anchored
      then (if pos = 0 then map_option (\<lambda>k. (0, k)) (matchHere items src) else None)
      else (if pos \<le> length src then scanFrom items (drop pos src) pos else None))"

text \<open>Every rune of an ASCII text is one byte wide.\<close>

definition ascii_width :: "bytes \<Rightarrow> nat" where
  "ascii_width p = (if p = [] then 0 else 1)"

definition regexp_fragment :: "re regexp_pkg" where
  "regexp_fragment = \<lparr>Compile = re_compile, Exec = re_exec, RuneWidth = ascii_width\<rparr>"

section \<open>Matches, limits and lines, as the specification speaks of them\<close>

text \<open>
  The definitions of this section do not translate source code. They say what the
  contracts of the specification speak of (the matches of a pattern, replacing up to
  \<open>n\<close> of them, the lines of a file, a call that commits nothing), and the theorems
  compare the operations defined above with them.
\<close>

text \<open>
  The matches of \<open>re\<close> in \<open>src\<close> that \<open>ReplaceAllFunc\<close> hands to its function, from left
  to right: the library looks for the next match after the end of the last one, and
  passes over an empty match right after another match.
\<close>

function matchSpans ::
  "'re regexp_pkg \<Rightarrow> 're \<Rightarrow> bytes \<Rightarrow> nat \<Rightarrow> nat \<Rightarrow> (nat \<times> nat) list" where
  "matchSpans L re src lastMatchEnd searchPos =
     (if searchPos \<le> length src then
        (case doExecute L re src searchPos of
           None \<Rightarrow> []
         | Some (a0, a1) \<Rightarrow>
             (if a1 > lastMatchEnd \<or> a0 = 0 then [(a0, a1)] else [])
             @ matchSpans L re src a1 (nextPos (RuneWidth L (drop searchPos src)) searchPos a1))
      else [])"
  by pat_completeness auto
termination
  by (relation "measure (\<lambda>(L, re, src, lastMatchEnd, searchPos). Suc (length src) - searchPos)")
     (auto dest!: doExecute_range intro!: nextPos_measure)

declare matchSpans.simps [simp del]

definition matches :: "'re regexp_pkg \<Rightarrow> 're \<Rightarrow> bytes \<Rightarrow> (nat \<times> nat) list" where
  "matches L re src = matchSpans L re src 0 0"

text \<open>
  The content from offset \<open>cur\<close> on in which, of the matches listed, the first \<open>n\<close> are
  replaced by \<open>repl\<close> and the others are kept; all of them are replaced when \<open>n\<close> is
  negative.
\<close>

fun replaceFirst :: "int \<Rightarrow> bytes \<Rightarrow> bytes \<Rightarrow> nat \<Rightarrow> (nat \<times> nat) list \<Rightarrow> bytes" where
  "replaceFirst n repl src cur [] = drop cur src"
| "replaceFirst n repl src cur ((a0, a1) # ms) =
     slice src cur a0 @ (if n = 0 then slice src a0 a1 else repl)
     @ replaceFirst (if 0 < n then n - 1 else n) repl src a1 ms"

text \<open>One entry with match limit \<open>n\<close> over a content: up to \<open>n\<close> of its own matches are replaced.\<close>

definition replaceUpTo :: "'re regexp_pkg \<Rightarrow> 're \<Rightarrow> bytes \<Rightarrow> int \<Rightarrow> bytes \<Rightarrow> bytes" where
  "replaceUpTo L re repl n src = replaceFirst n repl src 0 (matches L re src)"

text \<open>One \<open>Replacer\<close> with limit \<open>n\<close> over the current content.\<close>

definition entryOver :: "'re regexp_pkg \<Rightarrow> int \<Rightarrow> bytes \<Rightarrow> Replacer \<Rightarrow> bytes" where
  "entryOver L n content v =
     (case Compile L (r_Search v) of
        None \<Rightarrow> content
      | Some reSearch \<Rightarrow> replaceUpTo L reSearch (r_Replace v) n content)"

text \<open>
  One \<open>ReplacerAtLine\<close> with limit \<open>n\<close> over one line: it replaces within the line when its
  line pattern matches the line, and then up to \<open>n\<close> matches of its search pattern.
\<close>

definition entryAtLine :: "'re regexp_pkg \<Rightarrow> int \<Rightarrow> bytes \<Rightarrow> ReplacerAtLine \<Rightarrow> bytes" where
  "entryAtLine L n line v =
     (case Compile L (l_Line v) of
        None \<Rightarrow> line
      | Some reLine \<Rightarrow>
          (case Compile L (l_Search v) of
             None \<Rightarrow> line
           | Some reSearch \<Rightarrow>
               if Match L reLine line then replaceUpTo L reSearch (l_Replace v) n line
               else line))"

text \<open>Does one of the patterns match the line.\<close>

definition matchesAny :: "'re regexp_pkg \<Rightarrow> string list \<Rightarrow> bytes \<Rightarrow> bool" where
  "matchesAny L reLine line =
     (\<exists>v \<in> set reLine. case Compile L v of None \<Rightarrow> False | Some re \<Rightarrow> Match L re line)"

text \<open>A line of a file: bytes without a newline, and the newline that ends them.\<close>

definition is_line :: "bytes \<Rightarrow> bool" where
  "is_line l = (l \<noteq> [] \<and> last l = CHR 0x0A \<and> CHR 0x0A \<notin> set (butlast l))"

text \<open>What the reader will still hand out: the bytes it holds and the rest of the file.\<close>

definition pending :: "Editer \<Rightarrow> bytes" where
  "pending ed = rbuf ed @ drop (fpos ed) (fdata ed)"

text \<open>From \<open>ed\<close> to \<open>ed1\<close> the only calls on the file were reads by the reader.\<close>

definition only_reads :: "Editer \<Rightarrow> Editer \<Rightarrow> bool" where
  "only_reads ed ed1 =
     (fdata ed1 = fdata ed \<and> conf ed1 = conf ed
      \<and> (\<exists>k. calls ed1 = calls ed @ replicate k (SysRead 4096)))"

text \<open>No call in the list changes the content of the file.\<close>

fun changes_file :: "syscall \<Rightarrow> bool" where
  "changes_file (SysWrite b) = True"
| "changes_file (SysTruncate n) = True"
| "changes_file c = False"

text \<open>
  From \<open>ed\<close> to \<open>ed1\<close> nothing was committed: the content is the same, and none of the
  calls made since \<open>ed\<close> is a write or a truncate.
\<close>

definition no_commit :: "Editer \<Rightarrow> Editer \<Rightarrow> bool" where
  "no_commit ed ed1 =
     (fdata ed1 = fdata ed \<and> take (length (calls ed)) (calls ed1) = calls ed
      \<and> list_all (\<lambda>c. \<not> changes_file c) (drop (length (calls ed)) (calls ed1)))"

text \<open>The search pattern of a \<open>Replacer\<close> compiles and matches somewhere in the content.\<close>

definition searchMatches :: "'re regexp_pkg \<Rightarrow> bytes \<Rightarrow> Replacer \<Rightarrow> bool" where
  "searchMatches L content v =
     (case Compile L (r_Search v) of None \<Rightarrow> False | Some reSearch \<Rightarrow> Match L reSearch content)"

text \<open>
  Both patterns of a \<open>ReplacerAtLine\<close> compile, the line pattern matches the line and the
  search pattern matches somewhere in it.
\<close>

definition entryMatches :: "'re regexp_pkg \<Rightarrow> bytes \<Rightarrow> ReplacerAtLine \<Rightarrow> bool" where
  "entryMatches L line v =
     (case Compile L (l_Line v) of
        None \<Rightarrow> False
      | Some reLine \<Rightarrow>
          (case Compile L (l_Search v) of
             None \<Rightarrow> False
           | Some reSearch \<Rightarrow> Match L reLine line \<and> Match L reSearch line))"

text \<open>The line as \<open>Comment\<close> leaves it: with the marker and a space in front if a pattern matches.\<close>

definition commented :: "'re regexp_pkg \<Rightarrow> string list \<Rightarrow> bytes \<Rightarrow> bytes \<Rightarrow> bytes" where
  "commented L reLine marker line =
     (if matchesAny L reLine line then marker @ '' '' @ line else line)"

text \<open>The search pattern that \<open>CommentOut\<close> builds around the marker.\<close>

definition markerPattern :: "bytes \<Rightarrow> string" where
  "markerPattern marker = ''[[:space:]]*'' @ marker @ ''[[:space:]]*''"

section \<open>An example configuration\<close>

text \<open>The configuration with the marker \<open>#\<close> and no backup.\<close>

definition hash :: "ConfEditer option" where
  "hash = Some \<lparr>conf_Comment = ''#'', conf_Mode = 0\<rparr>"

section \<open>Delete: what is committed\<close>

lemma rewrite_fdata:
  "rewrite b ed = (None, ed\<lparr>fdata := b, fpos := length b,
      calls := calls ed @ [SysSeek 0, SysWrite b, SysTruncate (length b)]\<rparr>)"
  by (cases "b = []")
     (simp_all add: rewrite_def file_Seek_def file_Write_def file_Truncate_def Let_def)

text \<open>
  For offsets within the file, with the end offset before the end of the file, the
  content committed is the two kept spans followed by \<open>begin\<close> zero bytes: the second
  buffer is longer than what is left to read by \<open>begin\<close> bytes, and is written whole.
\<close>

lemma Delete_commits:
  assumes "0 \<le> b" "b \<le> e" "e < int (length (fdata ed))"
  shows "fst (Delete b e ed) = None"
    and "fdata (snd (Delete b e ed)) =
           take (nat b) (fdata ed) @ drop (nat e) (fdata ed) @ replicate (nat b) (CHR 0x00)"
proof -
  let ?C = "fdata ed"
  have len: "nat (int (length ?C) - (e - b)) = length ?C - nat e + nat b"
    using assms by linarith
  have pos: "length ?C - nat e + nat b \<noteq> 0" using assms by linarith
  have tk: "take (length ?C - nat e + nat b) (drop (nat e) ?C) = drop (nat e) ?C"
    by simp
  have ne: "drop (nat e) ?C \<noteq> []" using assms by simp
  have bl: "nat b \<le> length ?C" using assms by linarith
  have ne1: "nat b \<noteq> 0 \<Longrightarrow> take (nat b) ?C \<noteq> []" using assms by auto
  show "fst (Delete b e ed) = None"
    using assms ne ne1
    by (simp add: Delete_def file_Stat_def file_Seek_def file_Read_def rewrite_fdata Let_def
        len pos tk split: prod.splits)
  show "fdata (snd (Delete b e ed)) =
           take (nat b) ?C @ drop (nat e) ?C @ replicate (nat b) (CHR 0x00)"
    using assms ne ne1 bl
    by (simp add: Delete_def file_Stat_def file_Seek_def file_Read_def rewrite_fdata Let_def
        len pos tk min_def split: prod.splits)
qed

section \<open>Compiling the patterns\<close>

lemma cacheRegexps_Inr:
  "cacheRegexps L r = Inr all \<Longrightarrow>
     \<forall>v\<in>set r. Compile L (l_Line v) \<noteq> None \<and> Compile L (l_Search v) \<noteq> None"
  by (induction r arbitrary: all) (auto split: option.splits sum.splits)

lemma cacheRegexps_fails:
  assumes "\<exists>v\<in>set r. Compile L (l_Line v) = None \<or> Compile L (l_Search v) = None"
  shows "\<exists>err. cacheRegexps L r = Inl err"
  using assms cacheRegexps_Inr [of L r] by (cases "cacheRegexps L r") auto

lemma compileAll_Inr:
  "compileAll L reLine = Inr all \<Longrightarrow> \<forall>v\<in>set reLine. Compile L v \<noteq> None"
  by (induction reLine arbitrary: all) (auto split: option.splits sum.splits)

lemma compileAll_fails:
  assumes "\<exists>v\<in>set reLine. Compile L v = None"
  shows "\<exists>err. compileAll L reLine = Inl err"
  using assms compileAll_Inr [of L reLine] by (cases "compileAll L reLine") auto

lemma genReplace_range_Inr:
  "genReplace_range L r n content isNew = Inr res \<Longrightarrow> \<forall>v\<in>set r. Compile L (r_Search v) \<noteq> None"
  by (induction r arbitrary: content isNew) (auto split: option.splits sum.splits prod.splits)

lemma genReplace_range_fails:
  assumes "\<exists>v\<in>set r. Compile L (r_Search v) = None"
  shows "\<exists>err. genReplace_range L r n content isNew = Inl err"
  using assms genReplace_range_Inr [of L r n content isNew]
  by (cases "genReplace_range L r n content isNew") auto

section \<open>Reading a line\<close>

lemma takeWhile_first: "d \<notin> set body \<Longrightarrow> takeWhile (\<lambda>c. c \<noteq> d) (body @ d # rest) = body"
  by (induction body) auto

lemma pending_fill: "rbuf (fill ed) = pending ed" "pending (fill ed) = pending ed"
  by (simp_all add: fill_def pending_def Let_def)

lemma ReadBytes_line:
  assumes "pending ed = body @ CHR 0x0A # rest" "CHR 0x0A \<notin> set body"
  shows "\<exists>ed1. ReadBytes (CHR 0x0A) ed = ((body @ [CHR 0x0A], None), ed1) \<and> pending ed1 = rest
          \<and> fdata ed1 = fdata ed \<and> conf ed1 = conf ed
          \<and> (\<exists>k. calls ed1 = calls ed @ replicate k (SysRead 4096))"
proof -
  define ed0 where "ed0 = (if CHR 0x0A \<in> set (rbuf ed) then ed else fill ed)"
  have p0: "pending ed0 = body @ CHR 0x0A # rest"
    using assms(1) by (simp add: ed0_def pending_fill)
  have mem: "CHR 0x0A \<in> set (rbuf ed0)"
    using assms(1) by (auto simp: ed0_def pending_fill)
  have tw: "takeWhile (\<lambda>c. c \<noteq> CHR 0x0A) (rbuf ed0) = body"
  proof -
    have "takeWhile (\<lambda>c. c \<noteq> CHR 0x0A) (rbuf ed0)
            = takeWhile (\<lambda>c. c \<noteq> CHR 0x0A) (rbuf ed0 @ drop (fpos ed0) (fdata ed0))"
      using mem by (simp add: takeWhile_append1)
    also have "\<dots> = body" using p0 assms(2) by (simp add: pending_def takeWhile_first)
    finally show ?thesis .
  qed
  have len: "Suc (length body) \<le> length (rbuf ed0)"
    using takeWhile_lt_length [OF mem] tw by simp
  have dr: "drop (Suc (length body)) (rbuf ed0) @ drop (fpos ed0) (fdata ed0) = rest"
  proof -
    have "drop (Suc (length body)) (rbuf ed0) @ drop (fpos ed0) (fdata ed0)
            = drop (Suc (length body)) (pending ed0)"
      using len by (simp add: pending_def)
    also have "\<dots> = rest" by (simp add: p0)
    finally show ?thesis .
  qed
  have k: "\<exists>k. calls ed0 = calls ed @ replicate k (SysRead 4096)"
  proof (cases "CHR 0x0A \<in> set (rbuf ed)")
    case True
    then have "calls ed0 = calls ed @ replicate 0 (SysRead 4096)" by (simp add: ed0_def)
    then show ?thesis by blast
  next
    case False
    then have "calls ed0 = calls ed @ replicate 1 (SysRead 4096)"
      by (simp add: ed0_def fill_def Let_def)
    then show ?thesis by blast
  qed
  have same: "fdata ed0 = fdata ed" "conf ed0 = conf ed"
    by (simp_all add: ed0_def fill_def Let_def)
  have "ReadBytes (CHR 0x0A) ed =
          ((body @ [CHR 0x0A], None), ed0\<lparr>rbuf := drop (Suc (length body)) (rbuf ed0)\<rparr>)"
    using mem tw by (simp add: ReadBytes_def Let_def ed0_def [symmetric])
  moreover have "pending (ed0\<lparr>rbuf := drop (Suc (length body)) (rbuf ed0)\<rparr>) = rest"
    using dr by (simp add: pending_def)
  ultimately show ?thesis using k same by auto
qed

lemma ReadBytes_eof:
  assumes "CHR 0x0A \<notin> set (pending ed)"
  shows "\<exists>ed1. ReadBytes (CHR 0x0A) ed = ((pending ed, Some EOF), ed1) \<and> rbuf ed1 = []
          \<and> fdata ed1 = fdata ed \<and> conf ed1 = conf ed
          \<and> (\<exists>k. calls ed1 = calls ed @ replicate k (SysRead 4096))"
proof -
  from assms have nm: "CHR 0x0A \<notin> set (rbuf ed)" by (simp add: pending_def)
  have "calls (fill ed) = calls ed @ replicate 1 (SysRead 4096)"
    by (simp add: fill_def Let_def)
  then have k: "\<exists>k. calls (fill ed) = calls ed @ replicate k (SysRead 4096)" by blast
  have "ReadBytes (CHR 0x0A) ed = ((pending ed, Some EOF), (fill ed)\<lparr>rbuf := []\<rparr>)"
    using nm assms by (simp add: ReadBytes_def Let_def pending_fill)
  moreover have "fdata (fill ed) = fdata ed" "conf (fill ed) = conf ed"
    by (simp_all add: fill_def Let_def)
  ultimately show ?thesis using k by auto
qed

section \<open>ReplaceAllFunc with a match limit\<close>

lemma nextPos_ge: "a1 \<le> nextPos width searchPos a1"
  by (simp add: nextPos_def)

lemma replaceAll_replFunc:
  assumes "lme \<le> pos" "i = n \<or> (i < 0 \<and> n < 0)"
  shows "\<exists>j. replaceAll L re src (replFunc repl) lme pos buf (isNew, i) =
           (buf @ replaceFirst n repl src lme (matchSpans L re src lme pos),
            (isNew \<or> matchSpans L re src lme pos \<noteq> [], j))"
  using assms
proof (induction "Suc (length src) - pos" arbitrary: pos lme buf isNew i n rule: less_induct)
  case less
  show ?case
  proof (cases "pos \<le> length src")
    case False
    then show ?thesis
      by (subst replaceAll.simps, subst (1 2) matchSpans.simps) simp
  next
    case True
    show ?thesis
    proof (cases "doExecute L re src pos")
      case None
      with True show ?thesis
        by (subst replaceAll.simps, subst (1 2) matchSpans.simps) simp
    next
      case (Some a)
      obtain a0 a1 where a: "a = (a0, a1)" by (cases a)
      from Some a have rng: "pos \<le> a0" "a0 \<le> a1" "a1 \<le> length src"
        by (auto dest: doExecute_range)
      define np where "np = nextPos (RuneWidth L (drop pos src)) pos a1"
      have np: "pos < np" "a1 \<le> np"
        using rng nextPos_gt [of pos a1] nextPos_ge [of a1] by (auto simp: np_def)
      have meas: "Suc (length src) - np < Suc (length src) - pos"
        using np True by linarith
      show ?thesis
      proof (cases "a1 > lme \<or> a0 = 0")
        case rep: True
        define i1 where "i1 = (if i \<noteq> 0 then i - 1 else i)"
        define n1 where "n1 = (if 0 < n then n - 1 else n)"
        have rel: "i1 = n1 \<or> (i1 < 0 \<and> n1 < 0)"
          using less.prems(2) by (auto simp: i1_def n1_def)
        have z: "(i = 0) = (n = 0)" using less.prems(2) by auto
        from less.hyps [OF meas np(2) rel, of "buf @ slice src lme a0 @ (if n = 0 then slice src a0 a1 else repl)" True]
        obtain j where j: "replaceAll L re src (replFunc repl) a1 np
              (buf @ slice src lme a0 @ (if n = 0 then slice src a0 a1 else repl)) (True, i1) =
            ((buf @ slice src lme a0 @ (if n = 0 then slice src a0 a1 else repl)) @
               replaceFirst n1 repl src a1 (matchSpans L re src a1 np),
             (True, j))" by auto
        have ms: "matchSpans L re src lme pos = (a0, a1) # matchSpans L re src a1 np"
          using True Some a rep by (subst matchSpans.simps) (simp add: np_def)
        show ?thesis
          apply (subst replaceAll.simps)
          using True Some a rep j z
          apply (simp add: ms np_def [symmetric] replFunc_def i1_def n1_def)
          apply auto
          done
      next
        case norep: False
        with rng less.prems(1) have eq: "a0 = lme" "a1 = lme" by auto
        from less.hyps [OF meas np(2) less.prems(2), of buf isNew]
        obtain j where j: "replaceAll L re src (replFunc repl) a1 np buf (isNew, i) =
            (buf @ replaceFirst n repl src a1 (matchSpans L re src a1 np),
             (isNew \<or> matchSpans L re src a1 np \<noteq> [], j))" by auto
        have ms: "matchSpans L re src lme pos = matchSpans L re src a1 np"
          using True Some a norep by (subst matchSpans.simps) (simp add: np_def)
        have np': "nextPos (RuneWidth L (drop pos src)) pos lme = np"
          by (simp add: np_def eq)
        show ?thesis
          apply (subst replaceAll.simps)
          using True Some a norep j eq
          apply (simp add: ms np' slice_def)
          done
      qed
    qed
  qed
qed

section \<open>One entry, one line\<close>

lemma ReplaceAllFunc_replFunc:
  "\<exists>j. ReplaceAllFunc L re src (replFunc repl) (isNew, n) =
         (replaceUpTo L re repl n src, (isNew \<or> matches L re src \<noteq> [], j))"
  using replaceAll_replFunc [of 0 0 n n L re src repl "[]" isNew]
  by (simp add: ReplaceAllFunc_def replaceUpTo_def matches_def)

lemma matches_Nil_iff: "(matches L re src = []) = (\<not> Match L re src)"
proof (cases "doExecute L re src 0")
  case None
  then show ?thesis
    by (simp add: matches_def Match_def matchSpans.simps [of L re src 0 0])
next
  case (Some a)
  obtain a0 a1 where a: "a = (a0, a1)" by (cases a)
  from Some a have "a0 \<le> a1" by (auto dest: doExecute_range)
  then have "a1 > 0 \<or> a0 = 0" by auto
  with Some a show ?thesis
    by (simp add: matches_def Match_def matchSpans.simps [of L re src 0 0])
qed

lemma replaceUpTo_no_match: "\<not> Match L re src \<Longrightarrow> replaceUpTo L re repl n src = src"
  using matches_Nil_iff [of L re src] by (simp add: replaceUpTo_def)

lemma ReplaceAllFunc_eq:
  "\<exists>j. ReplaceAllFunc L re src (replFunc repl) (isNew, n) =
         (replaceUpTo L re repl n src, (isNew \<or> Match L re src, j))"
  using ReplaceAllFunc_replFunc [of L re src repl isNew n] matches_Nil_iff [of L re src]
  by auto

lemma genReplace_range_result:
  assumes "\<forall>v\<in>set r. Compile L (r_Search v) \<noteq> None"
  shows "\<exists>new. genReplace_range L r n content isNew = Inr (foldl (entryOver L n) content r, new)
           \<and> (isNew \<longrightarrow> new) \<and> (\<not> new \<longrightarrow> foldl (entryOver L n) content r = content)"
  using assms
proof (induction r arbitrary: content isNew)
  case Nil
  then show ?case by simp
next
  case (Cons v r)
  then obtain re where re: "Compile L (r_Search v) = Some re" by auto
  obtain j where j: "ReplaceAllFunc L re content (replFunc (r_Replace v)) (isNew, n) =
         (replaceUpTo L re (r_Replace v) n content, (isNew \<or> Match L re content, j))"
      using ReplaceAllFunc_eq [of L re content "r_Replace v" isNew n] by auto
  have eo: "entryOver L n content v = replaceUpTo L re (r_Replace v) n content"
    by (simp add: entryOver_def re)
  from Cons.prems have "\<forall>v\<in>set r. Compile L (r_Search v) \<noteq> None" by simp
  from Cons.IH [OF this, of "entryOver L n content v" "isNew \<or> Match L re content"]
  obtain new where new:
    "genReplace_range L r n (entryOver L n content v) (isNew \<or> Match L re content)
       = Inr (foldl (entryOver L n) (entryOver L n content v) r, new)"
    "isNew \<or> Match L re content \<longrightarrow> new"
    "\<not> new \<longrightarrow> foldl (entryOver L n) (entryOver L n content v) r = entryOver L n content v"
    by blast
  have "\<not> new \<Longrightarrow> entryOver L n content v = content"
    using new(2) eo replaceUpTo_no_match [of L re content] by auto
  with new re j eo show ?case by (auto simp: Let_def)
qed

lemma genReplace_range_no_match:
  assumes "\<forall>v\<in>set r. \<forall>re. Compile L (r_Search v) = Some re \<longrightarrow> \<not> Match L re content"
  shows "genReplace_range L r n content isNew = Inr (content, isNew)
         \<or> (\<exists>err. genReplace_range L r n content isNew = Inl err)"
  using assms
proof (induction r)
  case Nil
  then show ?case by simp
next
  case (Cons v r)
  show ?case
  proof (cases "Compile L (r_Search v)")
    case None
    then show ?thesis by simp
  next
    case (Some re)
    with Cons.prems have nm: "\<not> Match L re content" by simp
    obtain j where j: "ReplaceAllFunc L re content (replFunc (r_Replace v)) (isNew, n) =
         (replaceUpTo L re (r_Replace v) n content, (isNew \<or> Match L re content, j))"
      using ReplaceAllFunc_eq [of L re content "r_Replace v" isNew n] by auto
    from Cons have "genReplace_range L r n content isNew = Inr (content, isNew)
         \<or> (\<exists>err. genReplace_range L r n content isNew = Inl err)" by simp
    with Some j nm show ?thesis
      by (auto simp: Let_def replaceUpTo_no_match)
  qed
qed

text \<open>One line through the entries: what comes out does not depend on \<open>isNew\<close>.\<close>

lemma replaceLine_split:
  "replaceLine L all n line b =
     (fst (replaceLine L all n line False), b \<or> snd (replaceLine L all n line False))"
proof (induction all arbitrary: line b)
  case Nil
  then show ?case by simp
next
  case (Cons e all)
  obtain reLine reSearch repl where e: "e = (reLine, reSearch, repl)" by (cases e)
  show ?case
  proof (cases "Match L reLine line")
    case False
    with e Cons [of line b] show ?thesis by simp
  next
    case True
    obtain j where j: "ReplaceAllFunc L reSearch line (replFunc repl) (b, n) =
         (replaceUpTo L reSearch repl n line, (b \<or> Match L reSearch line, j))"
      using ReplaceAllFunc_eq [of L reSearch line "repl" b n] by auto
    obtain j' where j': "ReplaceAllFunc L reSearch line (replFunc repl) (False, n) =
         (replaceUpTo L reSearch repl n line, (Match L reSearch line, j'))"
      using ReplaceAllFunc_eq [of L reSearch line "repl" False n] by auto
    from Cons [of "replaceUpTo L reSearch repl n line" "b \<or> Match L reSearch line"]
         Cons [of "replaceUpTo L reSearch repl n line" "Match L reSearch line"]
         e True j j'
    show ?thesis by (auto simp: Let_def)
  qed
qed

lemma replaceLine_result:
  assumes "cacheRegexps L r = Inr all"
  shows "fst (replaceLine L all n line b) = foldl (entryAtLine L n) line r"
    and "\<not> snd (replaceLine L all n line b) \<Longrightarrow> foldl (entryAtLine L n) line r = line"
    and "b \<Longrightarrow> snd (replaceLine L all n line b)"
proof -
  have "fst (replaceLine L all n line b) = foldl (entryAtLine L n) line r
        \<and> (\<not> snd (replaceLine L all n line b) \<longrightarrow> foldl (entryAtLine L n) line r = line)
        \<and> (b \<longrightarrow> snd (replaceLine L all n line b))"
    using assms
  proof (induction r arbitrary: all line b)
    case Nil
    then show ?case by simp
  next
    case (Cons v r)
    from Cons.prems obtain reLine reSearch all' where
      c: "Compile L (l_Line v) = Some reLine" "Compile L (l_Search v) = Some reSearch"
         "cacheRegexps L r = Inr all'" "all = (reLine, reSearch, l_Replace v) # all'"
      by (auto split: option.splits sum.splits)
    show ?case
    proof (cases "Match L reLine line")
      case False
      then have "entryAtLine L n line v = line" by (simp add: entryAtLine_def c)
      with Cons.IH [OF c(3), of line b] c False show ?thesis by simp
    next
      case True
      obtain j where j: "ReplaceAllFunc L reSearch line (replFunc (l_Replace v)) (b, n) =
         (replaceUpTo L reSearch (l_Replace v) n line, (b \<or> Match L reSearch line, j))"
      using ReplaceAllFunc_eq [of L reSearch line "l_Replace v" b n] by auto
      have ea: "entryAtLine L n line v = replaceUpTo L reSearch (l_Replace v) n line"
        using True by (simp add: entryAtLine_def c)
      have nm: "\<not> Match L reSearch line \<Longrightarrow> entryAtLine L n line v = line"
        using ea by (simp add: replaceUpTo_no_match)
      have step: "replaceLine L all n line b =
          replaceLine L all' n (entryAtLine L n line v) (b \<or> Match L reSearch line)"
        using c True j ea by (simp add: Let_def)
      note ih = Cons.IH [OF c(3), of "entryAtLine L n line v" "b \<or> Match L reSearch line"]
      have s1: "fst (replaceLine L all n line b) =
          fst (replaceLine L all' n (entryAtLine L n line v) (b \<or> Match L reSearch line))"
        and s2: "snd (replaceLine L all n line b) =
          snd (replaceLine L all' n (entryAtLine L n line v) (b \<or> Match L reSearch line))"
        using step by simp_all
      show ?thesis
        unfolding s1 s2 using ih nm by (cases "Match L reSearch line") auto
    qed
  qed
  then show "fst (replaceLine L all n line b) = foldl (entryAtLine L n) line r"
    and "\<not> snd (replaceLine L all n line b) \<Longrightarrow> foldl (entryAtLine L n) line r = line"
    and "b \<Longrightarrow> snd (replaceLine L all n line b)"
    by auto
qed

section \<open>The loops over the lines\<close>

lemma is_line_split: "is_line l \<Longrightarrow> \<exists>body. l = body @ [CHR 0x0A] \<and> CHR 0x0A \<notin> set body"
  by (metis is_line_def append_butlast_last_id)

lemma only_reads_refl: "only_reads ed ed"
proof -
  have "calls ed = calls ed @ replicate 0 (SysRead 4096)" by simp
  then show ?thesis unfolding only_reads_def by blast
qed

lemma only_reads_trans:
  assumes "only_reads ed ed1" "only_reads ed1 ed2"
  shows "only_reads ed ed2"
proof -
  from assms obtain k k' where "calls ed1 = calls ed @ replicate k (SysRead 4096)"
    "calls ed2 = calls ed1 @ replicate k' (SysRead 4096)"
    unfolding only_reads_def by blast
  then have "calls ed2 = calls ed @ replicate (k + k') (SysRead 4096)"
    by (simp add: replicate_add)
  with assms show ?thesis unfolding only_reads_def by auto
qed

lemma genReplaceAtLine_lines_result:
  assumes "pending ed = concat ls @ frag" "\<forall>l\<in>set ls. is_line l" "CHR 0x0A \<notin> set frag"
  shows "\<exists>ed1. genReplaceAtLine_lines L all n ed buf isNew =
           ((buf @ concat (map (\<lambda>l. fst (replaceLine L all n l False)) ls),
             isNew \<or> (\<exists>l\<in>set ls. snd (replaceLine L all n l False))), ed1)
          \<and> rbuf ed1 = [] \<and> only_reads ed ed1"
  using assms
proof (induction ls arbitrary: ed buf isNew)
  case Nil
  then have "CHR 0x0A \<notin> set (pending ed)" by simp
  from ReadBytes_eof [OF this] obtain ed1 where
    "ReadBytes (CHR 0x0A) ed = ((pending ed, Some EOF), ed1)" "rbuf ed1 = []" "only_reads ed ed1"
    unfolding only_reads_def by blast
  then show ?case
    by (subst genReplaceAtLine_lines.simps) simp
next
  case (Cons l ls)
  then obtain body where l: "l = body @ [CHR 0x0A]" "CHR 0x0A \<notin> set body"
    using is_line_split [of l] by auto
  with Cons.prems have "pending ed = body @ CHR 0x0A # (concat ls @ frag)" by simp
  from ReadBytes_line [OF this l(2)] obtain ed1 where ed1:
    "ReadBytes (CHR 0x0A) ed = ((l, None), ed1)" "pending ed1 = concat ls @ frag"
    "only_reads ed ed1"
    unfolding only_reads_def l(1) by blast
  obtain line1 isNew1 where rl: "replaceLine L all n l isNew = (line1, isNew1)"
    by (cases "replaceLine L all n l isNew")
  with replaceLine_split [of L all n l isNew]
  have r1: "line1 = fst (replaceLine L all n l False)"
    "isNew1 = (isNew \<or> snd (replaceLine L all n l False))" by simp_all
  from Cons.prems have "\<forall>l\<in>set ls. is_line l" by simp
  from Cons.IH [OF ed1(2) this Cons.prems(3), of "buf @ line1" isNew1]
  obtain ed2 where ed2: "genReplaceAtLine_lines L all n ed1 (buf @ line1) isNew1 =
           (((buf @ line1) @ concat (map (\<lambda>l. fst (replaceLine L all n l False)) ls),
             isNew1 \<or> (\<exists>l\<in>set ls. snd (replaceLine L all n l False))), ed2)"
    "rbuf ed2 = []" "only_reads ed1 ed2" by blast
  have "genReplaceAtLine_lines L all n ed buf isNew =
          genReplaceAtLine_lines L all n ed1 (buf @ line1) isNew1"
    using ed1(1) rl by (subst genReplaceAtLine_lines.simps) simp
  with ed2 r1 only_reads_trans [OF ed1(3) ed2(3)] show ?case by auto
qed

lemma commentLine_eq:
  "commentLine L all ch line b =
     (if \<exists>re\<in>set all. Match L re line then ch @ line else line,
      b \<or> (\<exists>re\<in>set all. Match L re line))"
  by (induction all) auto

lemma compileAll_matchesAny:
  "compileAll L reLine = Inr all \<Longrightarrow> (\<exists>re\<in>set all. Match L re line) = matchesAny L reLine line"
  by (induction reLine arbitrary: all) (auto simp: matchesAny_def split: option.splits sum.splits)

lemma Comment_lines_result:
  assumes "pending ed = concat ls @ frag" "\<forall>l\<in>set ls. is_line l" "CHR 0x0A \<notin> set frag"
  shows "\<exists>ed1. Comment_lines L all ch ed buf isNew =
           ((buf @ concat (map (\<lambda>l. if \<exists>re\<in>set all. Match L re l then ch @ l else l) ls),
             isNew \<or> (\<exists>l\<in>set ls. \<exists>re\<in>set all. Match L re l)), ed1)
          \<and> rbuf ed1 = [] \<and> only_reads ed ed1"
  using assms
proof (induction ls arbitrary: ed buf isNew)
  case Nil
  then have "CHR 0x0A \<notin> set (pending ed)" by simp
  from ReadBytes_eof [OF this] obtain ed1 where
    "ReadBytes (CHR 0x0A) ed = ((pending ed, Some EOF), ed1)" "rbuf ed1 = []" "only_reads ed ed1"
    unfolding only_reads_def by blast
  then show ?case
    by (subst Comment_lines.simps) simp
next
  case (Cons l ls)
  then obtain body where l: "l = body @ [CHR 0x0A]" "CHR 0x0A \<notin> set body"
    using is_line_split [of l] by auto
  with Cons.prems have "pending ed = body @ CHR 0x0A # (concat ls @ frag)" by simp
  from ReadBytes_line [OF this l(2)] obtain ed1 where ed1:
    "ReadBytes (CHR 0x0A) ed = ((l, None), ed1)" "pending ed1 = concat ls @ frag"
    "only_reads ed ed1"
    unfolding only_reads_def l(1) by blast
  define line1 where "line1 = (if \<exists>re\<in>set all. Match L re l then ch @ l else l)"
  define isNew1 where "isNew1 = (isNew \<or> (\<exists>re\<in>set all. Match L re l))"
  have rl: "commentLine L all ch l isNew = (line1, isNew1)"
    by (simp add: commentLine_eq line1_def isNew1_def)
  from Cons.prems have "\<forall>l\<in>set ls. is_line l" by simp
  from Cons.IH [OF ed1(2) this Cons.prems(3), of "buf @ line1" isNew1]
  obtain ed2 where ed2: "Comment_lines L all ch ed1 (buf @ line1) isNew1 =
           (((buf @ line1) @ concat (map (\<lambda>l. if \<exists>re\<in>set all. Match L re l then ch @ l else l) ls),
             isNew1 \<or> (\<exists>l\<in>set ls. \<exists>re\<in>set all. Match L re l)), ed2)"
    "rbuf ed2 = []" "only_reads ed1 ed2" by blast
  have "Comment_lines L all ch ed buf isNew = Comment_lines L all ch ed1 (buf @ line1) isNew1"
    using ed1(1) rl by (subst Comment_lines.simps) simp
  with ed2 only_reads_trans [OF ed1(3) ed2(3)] show ?case
    by (auto simp: line1_def isNew1_def)
qed

section \<open>When nothing matches\<close>

lemma file_Seek_0:
  "file_Seek 0 ed = (None, ed\<lparr>fpos := 0, calls := calls ed @ [SysSeek 0]\<rparr>)"
  by (simp add: file_Seek_def Let_def)

lemma ReadAll_eq:
  "ReadAll ed = ((pending ed, None), (fill ed)\<lparr>rbuf := []\<rparr>)"
  by (simp add: ReadAll_def Let_def pending_fill)

lemma no_commitI:
  "fdata ed1 = fdata ed \<Longrightarrow> calls ed1 = calls ed @ cs \<Longrightarrow> list_all (\<lambda>c. \<not> changes_file c) cs
     \<Longrightarrow> no_commit ed ed1"
  by (simp add: no_commit_def)

lemma no_commit_refl: "no_commit ed ed"
  by (simp add: no_commit_def)

lemma no_commit_Seek_reads:
  assumes "only_reads (ed\<lparr>fpos := 0, calls := calls ed @ [SysSeek 0]\<rparr>) ed1"
  shows "no_commit ed ed1"
proof -
  from assms obtain k where
    "fdata ed1 = fdata ed" "calls ed1 = calls ed @ (SysSeek 0 # replicate k (SysRead 4096))"
    unfolding only_reads_def by auto
  then show ?thesis by (intro no_commitI) (auto simp: list_all_iff)
qed

lemma genReplace_no_match:
  assumes "rbuf ed = []" "\<forall>v\<in>set r. \<not> searchMatches L (fdata ed) v"
  shows "no_commit ed (snd (genReplace L r n ed))"
proof (cases "n = 0")
  case True
  then show ?thesis by (simp add: genReplace_def no_commit_refl)
next
  case False
  define ed1 where "ed1 = ed\<lparr>fpos := 0, calls := calls ed @ [SysSeek 0]\<rparr>"
  define ed2 where "ed2 = (fill ed1)\<lparr>rbuf := []\<rparr>"
  have content: "pending ed1 = fdata ed"
    using assms(1) by (simp add: ed1_def pending_def)
  have nc: "no_commit ed ed2"
    by (rule no_commitI [where cs = "[SysSeek 0, SysRead 4096]"])
       (simp_all add: ed2_def ed1_def fill_def Let_def)
  from assms(2) have "\<forall>v\<in>set r. \<forall>re. Compile L (r_Search v) = Some re \<longrightarrow> \<not> Match L re (fdata ed)"
    by (auto simp: searchMatches_def)
  from genReplace_range_no_match [OF this, of n False]
  have "snd (genReplace L r n ed) = ed2"
    using False
    by (auto simp: genReplace_def file_Seek_0 ReadAll_eq ed1_def [symmetric] content
        ed2_def [symmetric])
  with nc show ?thesis by simp
qed

lemma replaceLine_no_match:
  assumes "cacheRegexps L r = Inr all" "\<forall>v\<in>set r. \<not> entryMatches L line v"
  shows "replaceLine L all n line b = (line, b)"
  using assms
proof (induction r arbitrary: all)
  case Nil
  then show ?case by simp
next
  case (Cons v r)
  from Cons.prems obtain reLine reSearch all' where
    c: "Compile L (l_Line v) = Some reLine" "Compile L (l_Search v) = Some reSearch"
       "cacheRegexps L r = Inr all'" "all = (reLine, reSearch, l_Replace v) # all'"
    by (auto split: option.splits sum.splits)
  from Cons.prems c have nm: "\<not> (Match L reLine line \<and> Match L reSearch line)"
    by (simp add: entryMatches_def)
  from Cons.prems have ih: "replaceLine L all' n line b = (line, b)"
    using Cons.IH [OF c(3)] by simp
  show ?case
  proof (cases "Match L reLine line")
    case False
    with c ih show ?thesis by simp
  next
    case True
    with nm have ns: "\<not> Match L reSearch line" by simp
    obtain j where "ReplaceAllFunc L reSearch line (replFunc (l_Replace v)) (b, n) =
         (replaceUpTo L reSearch (l_Replace v) n line, (b \<or> Match L reSearch line, j))"
      using ReplaceAllFunc_eq [of L reSearch line "l_Replace v" b n] by auto
    with ns have "ReplaceAllFunc L reSearch line (replFunc (l_Replace v)) (b, n) =
         (line, (b, j))" by (simp add: replaceUpTo_no_match)
    with c ih True show ?thesis by (simp add: Let_def)
  qed
qed

lemma genReplaceAtLine_no_match:
  assumes "rbuf ed = []" "fdata ed = concat ls @ frag" "\<forall>l\<in>set ls. is_line l"
    "CHR 0x0A \<notin> set frag" "\<forall>l\<in>set ls. \<forall>v\<in>set r. \<not> entryMatches L l v"
  shows "no_commit ed (snd (genReplaceAtLine L r n ed))"
proof (cases "n = 0")
  case True
  then show ?thesis by (simp add: genReplaceAtLine_def no_commit_refl)
next
  case False
  define ed1 where "ed1 = ed\<lparr>fpos := 0, calls := calls ed @ [SysSeek 0]\<rparr>"
  have p: "pending ed1 = concat ls @ frag"
    using assms(1,2) by (simp add: ed1_def pending_def)
  have nc1: "no_commit ed ed1"
    by (rule no_commitI [where cs = "[SysSeek 0]"]) (simp_all add: ed1_def)
  show ?thesis
  proof (cases "cacheRegexps L r")
    case (Inl err)
    with False nc1 show ?thesis
      by (simp add: genReplaceAtLine_def file_Seek_0 ed1_def [symmetric])
  next
    case (Inr all)
    from genReplaceAtLine_lines_result [OF p assms(3,4), of L all n "[]" False]
    obtain ed2 where ed2: "genReplaceAtLine_lines L all n ed1 [] False =
           (([] @ concat (map (\<lambda>l. fst (replaceLine L all n l False)) ls),
             False \<or> (\<exists>l\<in>set ls. snd (replaceLine L all n l False))), ed2)"
      "only_reads ed1 ed2" by blast
    have "\<not> (\<exists>l\<in>set ls. snd (replaceLine L all n l False))"
      using assms(5) replaceLine_no_match [OF Inr, of _ n False] by simp
    with ed2 Inr False have "snd (genReplaceAtLine L r n ed) = ed2"
      by (simp add: genReplaceAtLine_def file_Seek_0 ed1_def [symmetric])
    with no_commit_Seek_reads [of ed ed2] ed2(2) show ?thesis by (simp add: ed1_def)
  qed
qed

lemma Comment_no_match:
  assumes "rbuf ed = []" "fdata ed = concat ls @ frag" "\<forall>l\<in>set ls. is_line l"
    "CHR 0x0A \<notin> set frag" "\<forall>l\<in>set ls. \<not> matchesAny L reLine l"
  shows "no_commit ed (snd (Comment L reLine ed))"
proof (cases "conf ed")
  case None
  then show ?thesis by (simp add: Comment_def no_commit_refl)
next
  case (Some c)
  show ?thesis
  proof (cases "conf_Comment c = []")
    case True
    with Some show ?thesis by (simp add: Comment_def no_commit_refl)
  next
    case ne: False
    show ?thesis
    proof (cases "compileAll L reLine")
      case (Inl err)
      with Some ne show ?thesis by (simp add: Comment_def no_commit_refl)
    next
      case (Inr all)
      define ed1 where "ed1 = ed\<lparr>fpos := 0, calls := calls ed @ [SysSeek 0]\<rparr>"
      have p: "pending ed1 = concat ls @ frag"
        using assms(1,2) by (simp add: ed1_def pending_def)
      from Comment_lines_result [OF p assms(3,4), of L all "conf_Comment c @ '' ''" "[]" False]
      obtain ed2 buf where ed2: "Comment_lines L all (conf_Comment c @ '' '') ed1 [] False =
           ((buf, False \<or> (\<exists>l\<in>set ls. \<exists>re\<in>set all. Match L re l)), ed2)"
        "only_reads ed1 ed2" by blast
      have "\<not> (\<exists>l\<in>set ls. \<exists>re\<in>set all. Match L re l)"
        using assms(5) compileAll_matchesAny [OF Inr] by simp
      with ed2 Inr Some ne have "snd (Comment L reLine ed) = ed2"
        by (simp add: Comment_def file_Seek_0 ed1_def [symmetric] Let_def)
      with no_commit_Seek_reads [of ed ed2] ed2(2) show ?thesis by (simp add: ed1_def)
    qed
  qed
qed

lemma CommentOut_no_match:
  assumes "rbuf ed = []" "fdata ed = concat ls @ frag" "\<forall>l\<in>set ls. is_line l"
    "CHR 0x0A \<notin> set frag" "\<forall>l\<in>set ls. \<not> matchesAny L reLine l"
  shows "no_commit ed (snd (CommentOut L reLine ed))"
proof (cases "conf ed")
  case None
  then show ?thesis by (simp add: CommentOut_def no_commit_refl)
next
  case (Some c)
  show ?thesis
  proof (cases "conf_Comment c = []")
    case True
    with Some show ?thesis by (simp add: CommentOut_def no_commit_refl)
  next
    case ne: False
    define allSearch where "allSearch =
       map (\<lambda>v. \<lparr>l_Line = v, l_Search = ''[[:space:]]*'' @ conf_Comment c @ ''[[:space:]]*'',
                  l_Replace = []\<rparr>) reLine"
    have "\<forall>l\<in>set ls. \<forall>v\<in>set allSearch. \<not> entryMatches L l v"
      using assms(5)
      by (auto simp: allSearch_def entryMatches_def matchesAny_def split: option.splits)
    from genReplaceAtLine_no_match [OF assms(1-4) this, of 1]
    show ?thesis using Some ne
      by (simp add: CommentOut_def ReplaceAtLineN_def allSearch_def Let_def)
  qed
qed

section \<open>What the operations commit\<close>

lemma genReplaceAtLine_pattern_error:
  assumes "n \<noteq> 0" "\<exists>v\<in>set rl. Compile L (l_Line v) = None \<or> Compile L (l_Search v) = None"
  shows "\<exists>err. genReplaceAtLine L rl n ed =
           (Some err, ed\<lparr>fpos := 0, calls := calls ed @ [SysSeek 0]\<rparr>)"
  using assms(1) cacheRegexps_fails [OF assms(2)]
  by (auto simp: genReplaceAtLine_def file_Seek_0)

lemma genReplace_pattern_error:
  assumes "n \<noteq> 0" "\<exists>v\<in>set r. Compile L (r_Search v) = None"
  shows "\<exists>err. genReplace L r n ed =
           (Some err, ed\<lparr>fpos := length (fdata ed), rbuf := [],
                          calls := calls ed @ [SysSeek 0, SysRead 4096]\<rparr>)"
proof -
  from genReplace_range_fails [OF assms(2), of n "rbuf ed @ fdata ed" False]
  obtain err where "genReplace_range L r n (rbuf ed @ fdata ed) False = Inl err" by blast
  with assms(1) show ?thesis
    by (simp add: genReplace_def file_Seek_0 ReadAll_def fill_def Let_def)
qed

lemma Comment_pattern_error:
  assumes "conf ed = Some c" "conf_Comment c \<noteq> []" "\<exists>v\<in>set reLine. Compile L v = None"
  shows "\<exists>err. Comment L reLine ed = (Some err, ed)"
  using assms(1,2) compileAll_fails [OF assms(3)]
  by (auto simp: Comment_def)

lemma CommentOut_pattern_error:
  assumes "conf ed = Some c" "conf_Comment c \<noteq> []"
    "(\<exists>v\<in>set reLine. Compile L v = None)
     \<or> (reLine \<noteq> [] \<and> Compile L (markerPattern (conf_Comment c)) = None)"
  shows "\<exists>err. CommentOut L reLine ed =
           (Some err, ed\<lparr>fpos := 0, calls := calls ed @ [SysSeek 0]\<rparr>)"
proof -
  define allSearch where "allSearch =
       map (\<lambda>v. \<lparr>l_Line = v, l_Search = ''[[:space:]]*'' @ conf_Comment c @ ''[[:space:]]*'',
                  l_Replace = []\<rparr>) reLine"
  have "\<exists>v\<in>set allSearch. Compile L (l_Line v) = None \<or> Compile L (l_Search v) = None"
  proof (cases "\<exists>v\<in>set reLine. Compile L v = None")
    case True
    then show ?thesis by (auto simp: allSearch_def)
  next
    case False
    with assms(3) have "reLine \<noteq> []" "Compile L (markerPattern (conf_Comment c)) = None"
      by auto
    then show ?thesis by (cases reLine) (auto simp: allSearch_def markerPattern_def)
  qed
  from genReplaceAtLine_pattern_error [OF _ this, of 1 ed]
  show ?thesis using assms(1,2)
    by (simp add: CommentOut_def ReplaceAtLineN_def allSearch_def Let_def)
qed

lemma genReplace_result:
  assumes "n \<noteq> 0" "rbuf ed = []" "\<forall>v\<in>set r. Compile L (r_Search v) \<noteq> None"
  shows "\<exists>ed1. genReplace L r n ed = (None, ed1)
           \<and> fdata ed1 = foldl (entryOver L n) (fdata ed) r
           \<and> rbuf ed1 = [] \<and> conf ed1 = conf ed"
proof -
  define ed1 where "ed1 = ed\<lparr>fpos := 0, calls := calls ed @ [SysSeek 0]\<rparr>"
  define ed2 where "ed2 = (fill ed1)\<lparr>rbuf := []\<rparr>"
  have content: "pending ed1 = fdata ed"
    using assms(2) by (simp add: ed1_def pending_def)
  have ed2: "fdata ed2 = fdata ed" "rbuf ed2 = []" "conf ed2 = conf ed"
    by (simp_all add: ed2_def ed1_def fill_def Let_def)
  from genReplace_range_result [OF assms(3), of n "fdata ed" False]
  obtain new where new:
    "genReplace_range L r n (fdata ed) False = Inr (foldl (entryOver L n) (fdata ed) r, new)"
    "\<not> new \<longrightarrow> foldl (entryOver L n) (fdata ed) r = fdata ed" by blast
  have "genReplace L r n ed =
          (if new then rewrite (foldl (entryOver L n) (fdata ed) r) ed2 else (None, ed2))"
    using assms(1) new(1)
    by (simp add: genReplace_def file_Seek_0 ReadAll_eq ed1_def [symmetric] content
        ed2_def [symmetric])
  with new(2) ed2 show ?thesis by (cases new) (simp_all add: rewrite_fdata)
qed

lemma cacheRegexps_total:
  assumes "\<forall>v\<in>set rl. Compile L (l_Line v) \<noteq> None \<and> Compile L (l_Search v) \<noteq> None"
  shows "\<exists>all. cacheRegexps L rl = Inr all"
  using assms by (induction rl) auto

lemma compileAll_total:
  assumes "\<forall>v\<in>set reLine. Compile L v \<noteq> None"
  shows "\<exists>all. compileAll L reLine = Inr all"
  using assms by (induction reLine) auto

lemma genReplaceAtLine_result_any:
  assumes "n \<noteq> 0" "rbuf ed = []" "fdata ed = concat ls @ frag" "\<forall>l\<in>set ls. is_line l"
    "CHR 0x0A \<notin> set frag"
    "\<forall>v\<in>set rl. Compile L (l_Line v) \<noteq> None \<and> Compile L (l_Search v) \<noteq> None"
  shows "\<exists>ed1 rest. genReplaceAtLine L rl n ed = (None, ed1)
           \<and> fdata ed1 = concat (map (\<lambda>l. foldl (entryAtLine L n) l rl) ls) @ rest
           \<and> (frag = [] \<longrightarrow> rest = []) \<and> CHR 0x0A \<notin> set rest
           \<and> rbuf ed1 = [] \<and> conf ed1 = conf ed"
proof -
  from cacheRegexps_total [OF assms(6)] obtain all where all: "cacheRegexps L rl = Inr all"
    by blast
  define ed1 where "ed1 = ed\<lparr>fpos := 0, calls := calls ed @ [SysSeek 0]\<rparr>"
  have p: "pending ed1 = concat ls @ frag"
    using assms(2,3) by (simp add: ed1_def pending_def)
  define new where "new = (\<exists>l\<in>set ls. snd (replaceLine L all n l False))"
  have out: "map (\<lambda>l. fst (replaceLine L all n l False)) ls
               = map (\<lambda>l. foldl (entryAtLine L n) l rl) ls"
    using replaceLine_result(1) [OF all] by simp
  from genReplaceAtLine_lines_result [OF p assms(4,5), of L all n "[]" False]
  obtain ed2 where ed2: "genReplaceAtLine_lines L all n ed1 [] False =
           ((concat (map (\<lambda>l. foldl (entryAtLine L n) l rl) ls), new), ed2)"
      "rbuf ed2 = []" "only_reads ed1 ed2"
    by (auto simp: new_def out)
  have same: "fdata ed2 = fdata ed" "conf ed2 = conf ed"
    using ed2(3) by (simp_all add: only_reads_def ed1_def)
  have unchanged: "\<not> new \<Longrightarrow> concat (map (\<lambda>l. foldl (entryAtLine L n) l rl) ls) = concat ls"
  proof -
    assume "\<not> new"
    then have "\<forall>l\<in>set ls. foldl (entryAtLine L n) l rl = l"
      using replaceLine_result(2) [OF all] by (auto simp: new_def)
    then have "map (\<lambda>l. foldl (entryAtLine L n) l rl) ls = ls"
      by (simp add: map_idI)
    then show ?thesis by simp
  qed
  have run: "genReplaceAtLine L rl n ed =
          (if new then rewrite (concat (map (\<lambda>l. foldl (entryAtLine L n) l rl) ls)) ed2
           else (None, ed2))"
    using assms(1) all ed2(1)
    by (simp add: genReplaceAtLine_def file_Seek_0 ed1_def [symmetric])
  show ?thesis
  proof (cases new)
    case True
    with run ed2(2) same show ?thesis
      by (intro exI [of _ "snd (genReplaceAtLine L rl n ed)"] exI [of _ "[]"])
         (simp add: rewrite_fdata)
  next
    case False
    with run ed2(2) same unchanged assms(3,5) show ?thesis
      by (intro exI [of _ ed2] exI [of _ frag]) simp
  qed
qed

lemma genReplaceAtLine_result:
  assumes "n \<noteq> 0" "rbuf ed = []" "fdata ed = concat ls" "\<forall>l\<in>set ls. is_line l"
    "\<forall>v\<in>set rl. Compile L (l_Line v) \<noteq> None \<and> Compile L (l_Search v) \<noteq> None"
  shows "\<exists>ed1. genReplaceAtLine L rl n ed = (None, ed1)
           \<and> fdata ed1 = concat (map (\<lambda>l. foldl (entryAtLine L n) l rl) ls)
           \<and> rbuf ed1 = [] \<and> conf ed1 = conf ed"
proof -
  have f: "fdata ed = concat ls @ []" "CHR 0x0A \<notin> set []" using assms(3) by simp_all
  from genReplaceAtLine_result_any [OF assms(1,2) f(1) assms(4) f(2) assms(5)]
  show ?thesis by auto
qed

lemma is_line_prefix: "is_line l \<Longrightarrow> CHR 0x0A \<notin> set p \<Longrightarrow> is_line (p @ l)"
  by (simp add: is_line_def butlast_append)

lemma Comment_result_any:
  assumes "conf ed = Some c" "conf_Comment c \<noteq> []" "rbuf ed = []" "fdata ed = concat ls @ frag"
    "\<forall>l\<in>set ls. is_line l" "CHR 0x0A \<notin> set frag" "\<forall>v\<in>set reLine. Compile L v \<noteq> None"
  shows "\<exists>ed1 rest. Comment L reLine ed = (None, ed1)
           \<and> fdata ed1 = concat (map (commented L reLine (conf_Comment c)) ls) @ rest
           \<and> (frag = [] \<longrightarrow> rest = []) \<and> CHR 0x0A \<notin> set rest
           \<and> rbuf ed1 = [] \<and> conf ed1 = conf ed"
proof -
  from compileAll_total [OF assms(7)] obtain all where all: "compileAll L reLine = Inr all"
    by blast
  define ed1 where "ed1 = ed\<lparr>fpos := 0, calls := calls ed @ [SysSeek 0]\<rparr>"
  have p: "pending ed1 = concat ls @ frag"
    using assms(3,4) by (simp add: ed1_def pending_def)
  define new where "new = (\<exists>l\<in>set ls. matchesAny L reLine l)"
  from Comment_lines_result [OF p assms(5,6), of L all "conf_Comment c @ '' ''" "[]" False]
  obtain ed2 where raw: "Comment_lines L all (conf_Comment c @ '' '') ed1 [] False =
           (([] @ concat (map (\<lambda>l. if \<exists>re\<in>set all. Match L re l
                                      then (conf_Comment c @ '' '') @ l else l) ls),
             False \<or> (\<exists>l\<in>set ls. \<exists>re\<in>set all. Match L re l)), ed2)"
      and ed2: "rbuf ed2 = []" "only_reads ed1 ed2"
    by blast
  have out: "(\<lambda>l. if \<exists>re\<in>set all. Match L re l then (conf_Comment c @ '' '') @ l else l)
               = commented L reLine (conf_Comment c)"
    by (rule ext) (simp add: commented_def compileAll_matchesAny [OF all])
  have run: "Comment_lines L all (conf_Comment c @ '' '') ed1 [] False =
           ((concat (map (commented L reLine (conf_Comment c)) ls), new), ed2)"
    using raw unfolding out new_def by (simp add: compileAll_matchesAny [OF all])
  have same: "fdata ed2 = fdata ed" "conf ed2 = conf ed"
    using ed2(2) by (simp_all add: only_reads_def ed1_def)
  have unchanged: "\<not> new \<Longrightarrow> concat (map (commented L reLine (conf_Comment c)) ls) = concat ls"
  proof -
    assume "\<not> new"
    then have "map (commented L reLine (conf_Comment c)) ls = ls"
      by (simp add: new_def commented_def map_idI)
    then show ?thesis by simp
  qed
  have op: "Comment L reLine ed =
          (if new then rewrite (concat (map (commented L reLine (conf_Comment c)) ls)) ed2
           else (None, ed2))"
    using assms(1,2) all run
    by (simp add: Comment_def file_Seek_0 ed1_def [symmetric] Let_def)
  show ?thesis
  proof (cases new)
    case True
    with op ed2(1) same show ?thesis
      by (intro exI [of _ "snd (Comment L reLine ed)"] exI [of _ "[]"])
         (simp add: rewrite_fdata)
  next
    case False
    with op ed2(1) same unchanged assms(4,6) show ?thesis
      by (intro exI [of _ ed2] exI [of _ frag]) simp
  qed
qed

lemma Comment_result:
  assumes "conf ed = Some c" "conf_Comment c \<noteq> []" "rbuf ed = []" "fdata ed = concat ls"
    "\<forall>l\<in>set ls. is_line l" "\<forall>v\<in>set reLine. Compile L v \<noteq> None"
  shows "\<exists>ed1. Comment L reLine ed = (None, ed1)
           \<and> fdata ed1 = concat (map (commented L reLine (conf_Comment c)) ls)
           \<and> rbuf ed1 = [] \<and> conf ed1 = conf ed"
proof -
  have f: "fdata ed = concat ls @ []" "CHR 0x0A \<notin> set []" using assms(4) by simp_all
  from Comment_result_any [OF assms(1-3) f(1) assms(5) f(2) assms(6)]
  show ?thesis by auto
qed

section \<open>Taking the marker out again\<close>

lemma replaceFirst_zero:
  assumes "lme \<le> pos"
  shows "replaceFirst 0 repl src lme (matchSpans L re src lme pos) = drop lme src"
  using assms
proof (induction "Suc (length src) - pos" arbitrary: pos lme rule: less_induct)
  case less
  show ?case
  proof (cases "pos \<le> length src")
    case False
    then show ?thesis by (subst matchSpans.simps) simp
  next
    case True
    show ?thesis
    proof (cases "doExecute L re src pos")
      case None
      with True show ?thesis by (subst matchSpans.simps) simp
    next
      case (Some a)
      obtain a0 a1 where a: "a = (a0, a1)" by (cases a)
      from Some a have rng: "pos \<le> a0" "a0 \<le> a1" "a1 \<le> length src"
        by (auto dest: doExecute_range)
      define np where "np = nextPos (RuneWidth L (drop pos src)) pos a1"
      have np: "pos < np" "a1 \<le> np"
        using rng nextPos_gt [of pos a1] nextPos_ge [of a1] by (auto simp: np_def)
      have meas: "Suc (length src) - np < Suc (length src) - pos"
        using np True by linarith
      have ih: "replaceFirst 0 repl src a1 (matchSpans L re src a1 np) = drop a1 src"
        by (rule less.hyps [OF meas np(2)])
      have ms: "matchSpans L re src lme pos =
          (if a1 > lme \<or> a0 = 0 then [(a0, a1)] else []) @ matchSpans L re src a1 np"
        using True Some a by (subst matchSpans.simps) (simp add: np_def)
      have join: "slice src lme a0 @ slice src a0 a1 @ drop a1 src = drop lme src"
      proof -
        have "slice src a0 a1 @ drop a1 src = drop a0 src"
          using rng by (simp add: slice_def) (metis add_diff_inverse_nat append_take_drop_id drop_drop leD add.commute)
        moreover have "slice src lme a0 @ drop a0 src = drop lme src"
          using rng less.prems by (simp add: slice_def) (metis add_diff_inverse_nat append_take_drop_id drop_drop leD add.commute le_trans)
        ultimately show ?thesis by simp
      qed
      show ?thesis
      proof (cases "a1 > lme \<or> a0 = 0")
        case True
        with ms ih join show ?thesis by simp
      next
        case False
        with rng less.prems have "a1 = lme" by auto
        with ms ih False show ?thesis by simp
      qed
    qed
  qed
qed

lemma replaceUpTo_first_only:
  assumes "doExecute L re src 0 = Some (0, k)"
  shows "replaceUpTo L re [] 1 src = drop k src"
proof -
  define np where "np = nextPos (RuneWidth L (drop 0 src)) 0 k"
  have "k \<le> np" by (simp add: np_def nextPos_ge)
  from replaceFirst_zero [OF this, of "[]" src L re]
  have rest: "replaceFirst 0 [] src k (matchSpans L re src k np) = drop k src" .
  have "matches L re src = (0, k) # matchSpans L re src k np"
    using assms by (simp add: matches_def matchSpans.simps [of L re src 0 0] np_def)
  with rest show ?thesis by (simp add: replaceUpTo_def slice_def)
qed

lemma uncomment_nothing:
  assumes "Compile L s = Some reS" "\<not> Match L reS l"
  shows "foldl (entryAtLine L 1) l (map (\<lambda>v. \<lparr>l_Line = v, l_Search = s, l_Replace = []\<rparr>) ps) = l"
proof (induction ps)
  case Nil
  then show ?case by simp
next
  case (Cons p ps)
  have "entryAtLine L 1 l \<lparr>l_Line = p, l_Search = s, l_Replace = []\<rparr> = l"
    using assms by (simp add: entryAtLine_def replaceUpTo_no_match split: option.splits)
  with Cons show ?case by simp
qed

lemma uncomment_line:
  assumes "Compile L s = Some reS" "\<not> Match L reS l"
    "doExecute L reS (p @ l) 0 = Some (0, length p)"
  shows "foldl (entryAtLine L 1) (p @ l)
           (map (\<lambda>v. \<lparr>l_Line = v, l_Search = s, l_Replace = []\<rparr>) ps)
         = (if matchesAny L ps (p @ l) then l else p @ l)"
proof (induction ps)
  case Nil
  then show ?case by (simp add: matchesAny_def)
next
  case (Cons v ps)
  let ?mk = "\<lambda>v. \<lparr>l_Line = v, l_Search = s, l_Replace = []\<rparr>"
  show ?case
  proof (cases "case Compile L v of None \<Rightarrow> False | Some re \<Rightarrow> Match L re (p @ l)")
    case True
    then have "entryAtLine L 1 (p @ l) (?mk v) = replaceUpTo L reS [] 1 (p @ l)"
      using assms(1) by (simp add: entryAtLine_def split: option.splits)
    also have "\<dots> = l" using replaceUpTo_first_only [OF assms(3)] by simp
    finally have "entryAtLine L 1 (p @ l) (?mk v) = l" .
    moreover from True have "matchesAny L (v # ps) (p @ l)" by (simp add: matchesAny_def)
    ultimately show ?thesis using uncomment_nothing [OF assms(1,2), of ps] by simp
  next
    case False
    then have "entryAtLine L 1 (p @ l) (?mk v) = p @ l"
      by (auto simp: entryAtLine_def split: option.splits)
    moreover from False have "matchesAny L (v # ps) (p @ l) = matchesAny L ps (p @ l)"
      by (simp add: matchesAny_def)
    ultimately show ?thesis using Cons by simp
  qed
qed

lemma uncomment_unmatched:
  assumes "\<not> matchesAny L ps l"
  shows "foldl (entryAtLine L 1) l (map (\<lambda>v. \<lparr>l_Line = v, l_Search = s, l_Replace = []\<rparr>) ps) = l"
  using assms
proof (induction ps)
  case Nil
  then show ?case by simp
next
  case (Cons v ps)
  from Cons.prems have "entryAtLine L 1 l \<lparr>l_Line = v, l_Search = s, l_Replace = []\<rparr> = l"
    by (auto simp: entryAtLine_def matchesAny_def split: option.splits)
  moreover from Cons.prems have "\<not> matchesAny L ps l" by (simp add: matchesAny_def)
  ultimately show ?case using Cons.IH by simp
qed

section \<open>The claims of the specification\<close>

text \<open>Rules that run the operations, and the contract-level functions, on a concrete file.\<close>

lemmas run_simps =
  ReplaceAtLine_def ReplaceAtLineN_def Replace_def ReplaceN_def genReplaceAtLine_def genReplace_def
  Comment_def CommentOut_def NewEdit_def file_Seek_def ReadAll_def ReadBytes_def fill_def
  rewrite_fdata Let_def genReplaceAtLine_lines.simps Comment_lines.simps
  ReplaceAllFunc_def replaceAll.simps replFunc_def doExecute_def Match_def slice_def nextPos_def
  regexp_fragment_def re_compile_def parseItems.simps parseAtom_def metachars_def ascii_width_def

lemmas spec_simps =
  entryOver_def entryAtLine_def replaceUpTo_def matches_def matchSpans.simps matchesAny_def
  commented_def markerPattern_def is_line_def
  doExecute_def Match_def slice_def nextPos_def
  regexp_fragment_def re_compile_def parseItems.simps parseAtom_def metachars_def ascii_width_def

subsection \<open>C1: Delete\<close>

text \<open>
  C1. \<open>Delete(b, e)\<close> should commit \<open>C[0:b] ++ C[e:]\<close>. On the six bytes \<open>abcdef\<close>,
  \<open>Delete(2, 4)\<close> commits \<open>abef\<close> followed by two zero bytes, \<open>Delete(2, 2)\<close> commits the
  content followed by two zero bytes, and \<open>Delete(2, 6)\<close> returns \<open>io.EOF\<close> and commits
  nothing.
\<close>

theorem Delete_appends_zero_bytes:
  "Delete 2 4 (NewEdit ''abcdef'' None) =
     (None, \<lparr>fdata = ''abef'' @ [CHR 0x00, CHR 0x00], fpos = 6, rbuf = [], conf = None,
        calls = [SysStat, SysSeek 0, SysRead 2, SysSeek 4, SysRead 4, SysSeek 0,
                 SysWrite (''abef'' @ [CHR 0x00, CHR 0x00]), SysTruncate 6]\<rparr>)
   \<and> fdata (snd (Delete 2 2 (NewEdit ''abcdef'' None))) = ''abcdef'' @ [CHR 0x00, CHR 0x00]
   \<and> fst (Delete 2 6 (NewEdit ''abcdef'' None)) = Some EOF
   \<and> fdata (snd (Delete 2 6 (NewEdit ''abcdef'' None))) = ''abcdef''"
  by (simp add: Delete_def NewEdit_def file_Stat_def file_Seek_def file_Read_def
      rewrite_fdata Let_def numeral_2_eq_2)

subsection \<open>C2: the last line of a file\<close>

text \<open>
  C2. The line-scoped operations should also process a final line that has no newline
  after it. They do not: the loop over the lines is left as soon as \<open>ReadBytes\<close> returns
  \<open>io.EOF\<close>, and the bytes returned with it are thrown away. On the file \<open>foo\<close>, newline,
  \<open>bar\<close>: an entry for the line \<open>bar\<close> changes nothing, though it does when a newline
  follows \<open>bar\<close>; an entry for the line \<open>foo\<close> commits the changed first line alone, and
  so does \<open>Comment\<close>: the line \<open>bar\<close> is gone from the file.
\<close>

theorem final_line_without_newline_is_dropped:
  "fdata (snd (ReplaceAtLine regexp_fragment
                 [\<lparr>l_Line = ''bar'', l_Search = ''a'', l_Replace = ''A''\<rparr>]
                 (NewEdit ''foo\<newline>bar'' None))) = ''foo\<newline>bar''
   \<and> fdata (snd (ReplaceAtLine regexp_fragment
                 [\<lparr>l_Line = ''bar'', l_Search = ''a'', l_Replace = ''A''\<rparr>]
                 (NewEdit ''foo\<newline>bar\<newline>'' None))) = ''foo\<newline>bAr\<newline>''
   \<and> fdata (snd (ReplaceAtLine regexp_fragment
                 [\<lparr>l_Line = ''foo'', l_Search = ''o'', l_Replace = ''0''\<rparr>]
                 (NewEdit ''foo\<newline>bar'' None))) = ''f00\<newline>''
   \<and> fdata (snd (Comment regexp_fragment [''foo''] (NewEdit ''foo\<newline>bar'' hash)))
       = ''# foo\<newline>''"
  by (simp add: run_simps hash_def)

subsection \<open>C3: patterns that do not compile\<close>

text \<open>
  C3, as stated, fails for \<open>Replace\<close> and \<open>ReplaceN\<close>: \<open>genReplace\<close> compiles each pattern
  inside its loop, after \<open>ReadAll\<close>. With the pattern \<open>(\<close>, which does not compile,
  \<open>Replace\<close> has sought to the start and read the file when it returns the error; and
  \<open>ReplaceN\<close> with limit \<open>0\<close> returns success.
\<close>

theorem Replace_reads_before_compiling:
  "Compile regexp_fragment ''('' = None
   \<and> Replace regexp_fragment [\<lparr>r_Search = ''('', r_Replace = ''x''\<rparr>] (NewEdit ''abc'' None)
       = (Some (ErrSyntax ''(''),
          \<lparr>fdata = ''abc'', fpos = 3, rbuf = [], conf = None,
             calls = [SysSeek 0, SysRead 4096]\<rparr>)
   \<and> ReplaceN regexp_fragment [\<lparr>r_Search = ''('', r_Replace = ''x''\<rparr>] 0 (NewEdit ''abc'' None)
       = (None, NewEdit ''abc'' None)"
  by (simp add: run_simps)

text \<open>
  C3, amended. A pattern that does not compile makes the operation return an error and
  leaves the content of the file as it was, for \<open>ReplaceN\<close> and \<open>ReplaceAtLineN\<close> when
  the limit is not \<open>0\<close>, for \<open>Comment\<close> and \<open>CommentOut\<close> when a comment marker is
  configured. \<open>ReplaceAtLine\<close>, \<open>ReplaceAtLineN\<close> and \<open>CommentOut\<close> return the error after
  the seek to the start and before any read, \<open>Comment\<close> before any call on the file;
  \<open>Replace\<close> and \<open>ReplaceN\<close> return it after the seek and the read of the whole content,
  without a write or a truncate.
\<close>

theorem pattern_error_leaves_the_file:
  "((\<exists>v\<in>set rl. Compile L (l_Line v) = None \<or> Compile L (l_Search v) = None) \<longrightarrow>
        (\<exists>err. ReplaceAtLine L rl ed =
                 (Some err, ed\<lparr>fpos := 0, calls := calls ed @ [SysSeek 0]\<rparr>))
        \<and> (n \<noteq> 0 \<longrightarrow>
             (\<exists>err. ReplaceAtLineN L rl n ed =
                      (Some err, ed\<lparr>fpos := 0, calls := calls ed @ [SysSeek 0]\<rparr>))))
   \<and> ((\<exists>v\<in>set reLine. Compile L v = None) \<and> conf ed = Some c \<and> conf_Comment c \<noteq> [] \<longrightarrow>
        (\<exists>err. Comment L reLine ed = (Some err, ed))
        \<and> (\<exists>err. CommentOut L reLine ed =
                 (Some err, ed\<lparr>fpos := 0, calls := calls ed @ [SysSeek 0]\<rparr>)))
   \<and> ((\<exists>v\<in>set r. Compile L (r_Search v) = None) \<longrightarrow>
        (\<exists>err. Replace L r ed =
                 (Some err, ed\<lparr>fpos := length (fdata ed), rbuf := [],
                                calls := calls ed @ [SysSeek 0, SysRead 4096]\<rparr>))
        \<and> (n \<noteq> 0 \<longrightarrow>
             (\<exists>err. ReplaceN L r n ed =
                      (Some err, ed\<lparr>fpos := length (fdata ed), rbuf := [],
                                     calls := calls ed @ [SysSeek 0, SysRead 4096]\<rparr>))))"
proof (intro conjI impI)
  assume bad: "\<exists>v\<in>set rl. Compile L (l_Line v) = None \<or> Compile L (l_Search v) = None"
  show "\<exists>err. ReplaceAtLine L rl ed =
                 (Some err, ed\<lparr>fpos := 0, calls := calls ed @ [SysSeek 0]\<rparr>)"
    using genReplaceAtLine_pattern_error [OF _ bad, of "- 1" ed]
    by (simp add: ReplaceAtLine_def)
  show "\<exists>err. ReplaceAtLineN L rl n ed =
                 (Some err, ed\<lparr>fpos := 0, calls := calls ed @ [SysSeek 0]\<rparr>)" if "n \<noteq> 0"
    using genReplaceAtLine_pattern_error [OF that bad, of ed]
    by (simp add: ReplaceAtLineN_def)
next
  assume h: "(\<exists>v\<in>set reLine. Compile L v = None) \<and> conf ed = Some c \<and> conf_Comment c \<noteq> []"
  then have bad: "\<exists>v\<in>set reLine. Compile L v = None" and c: "conf ed = Some c"
    and m: "conf_Comment c \<noteq> []" by simp_all
  show "\<exists>err. Comment L reLine ed = (Some err, ed)"
    by (rule Comment_pattern_error [OF c m bad])
  show "\<exists>err. CommentOut L reLine ed =
                 (Some err, ed\<lparr>fpos := 0, calls := calls ed @ [SysSeek 0]\<rparr>)"
    using CommentOut_pattern_error [OF c m, of reLine L] bad by simp
next
  assume bad: "\<exists>v\<in>set r. Compile L (r_Search v) = None"
  show "\<exists>err. Replace L r ed =
                 (Some err, ed\<lparr>fpos := length (fdata ed), rbuf := [],
                                calls := calls ed @ [SysSeek 0, SysRead 4096]\<rparr>)"
    using genReplace_pattern_error [OF _ bad, of "- 1" ed]
    by (simp add: Replace_def)
  show "\<exists>err. ReplaceN L r n ed =
                 (Some err, ed\<lparr>fpos := length (fdata ed), rbuf := [],
                                calls := calls ed @ [SysSeek 0, SysRead 4096]\<rparr>)" if "n \<noteq> 0"
    using genReplace_pattern_error [OF that bad, of ed]
    by (simp add: ReplaceN_def)
qed

text \<open>The amended C3 on a file of one line, with the pattern \<open>(\<close>.\<close>

theorem pattern_error_leaves_the_file_witness:
  "Compile regexp_fragment ''('' = None
   \<and> (1::int) \<noteq> 0
   \<and> conf (NewEdit ''foo\<newline>'' hash) = Some \<lparr>conf_Comment = ''#'', conf_Mode = 0\<rparr>
   \<and> conf_Comment \<lparr>conf_Comment = ''#'', conf_Mode = 0\<rparr> \<noteq> []
   \<and> (\<exists>err. ReplaceAtLine regexp_fragment [\<lparr>l_Line = ''foo'', l_Search = ''('', l_Replace = ''x''\<rparr>]
               (NewEdit ''foo\<newline>'' hash) =
             (Some err, (NewEdit ''foo\<newline>'' hash)
                \<lparr>fpos := 0, calls := calls (NewEdit ''foo\<newline>'' hash) @ [SysSeek 0]\<rparr>))
   \<and> (\<exists>err. ReplaceAtLineN regexp_fragment
               [\<lparr>l_Line = ''foo'', l_Search = ''('', l_Replace = ''x''\<rparr>] 1
               (NewEdit ''foo\<newline>'' hash) =
             (Some err, (NewEdit ''foo\<newline>'' hash)
                \<lparr>fpos := 0, calls := calls (NewEdit ''foo\<newline>'' hash) @ [SysSeek 0]\<rparr>))
   \<and> (\<exists>err. Comment regexp_fragment [''foo'', ''(''] (NewEdit ''foo\<newline>'' hash) =
             (Some err, NewEdit ''foo\<newline>'' hash))
   \<and> (\<exists>err. CommentOut regexp_fragment [''foo'', ''(''] (NewEdit ''foo\<newline>'' hash) =
             (Some err, (NewEdit ''foo\<newline>'' hash)
                \<lparr>fpos := 0, calls := calls (NewEdit ''foo\<newline>'' hash) @ [SysSeek 0]\<rparr>))
   \<and> (\<exists>err. Replace regexp_fragment [\<lparr>r_Search = ''('', r_Replace = ''x''\<rparr>]
               (NewEdit ''foo\<newline>'' hash) =
             (Some err, (NewEdit ''foo\<newline>'' hash)
                \<lparr>fpos := length (fdata (NewEdit ''foo\<newline>'' hash)), rbuf := [],
                   calls := calls (NewEdit ''foo\<newline>'' hash) @ [SysSeek 0, SysRead 4096]\<rparr>))
   \<and> (\<exists>err. ReplaceN regexp_fragment [\<lparr>r_Search = ''('', r_Replace = ''x''\<rparr>] 1
               (NewEdit ''foo\<newline>'' hash) =
             (Some err, (NewEdit ''foo\<newline>'' hash)
                \<lparr>fpos := length (fdata (NewEdit ''foo\<newline>'' hash)), rbuf := [],
                   calls := calls (NewEdit ''foo\<newline>'' hash) @ [SysSeek 0, SysRead 4096]\<rparr>))"
proof -
  let ?c = "\<lparr>conf_Comment = ''#'', conf_Mode = 0\<rparr>"
  let ?ed = "NewEdit ''foo\<newline>'' hash"
  have bad: "Compile regexp_fragment ''('' = None" by (simp add: spec_simps)
  have h1: "(1::int) \<noteq> 0" by simp
  have h2: "conf ?ed = Some ?c" by (simp add: NewEdit_def hash_def)
  have h3: "conf_Comment ?c \<noteq> []" by simp
  have h4: "\<exists>v\<in>set [\<lparr>l_Line = ''foo'', l_Search = ''('', l_Replace = ''x''\<rparr>].
         Compile regexp_fragment (l_Line v) = None \<or> Compile regexp_fragment (l_Search v) = None"
    using bad by simp
  have h5: "\<exists>v\<in>set [''foo'', ''(''] . Compile regexp_fragment v = None"
    using bad by simp
  have h6: "\<exists>v\<in>set [\<lparr>r_Search = ''('', r_Replace = ''x''\<rparr>].
         Compile regexp_fragment (r_Search v) = None"
    using bad by simp
  from pattern_error_leaves_the_file
      [of "[\<lparr>l_Line = ''foo'', l_Search = ''('', l_Replace = ''x''\<rparr>]" regexp_fragment ?ed 1
         "[''foo'', ''('']" ?c "[\<lparr>r_Search = ''('', r_Replace = ''x''\<rparr>]"]
    h1 h2 h3 h4 h5 h6 bad
  show ?thesis by blast
qed

subsection \<open>C4: the limit of ReplaceN\<close>

text \<open>
  C4. \<open>ReplaceN\<close> with a limit \<open>n > 0\<close> commits the content obtained by taking the entries
  in order, each over the content the entries before it have left, and each replacing
  up to \<open>n\<close> of its own matches from the left: the limit is spent anew by every entry.
  (The patterns compile, and the reader holds nothing from before, as after \<open>NewEdit\<close> or
  any operation.)
\<close>

theorem ReplaceN_limit_is_per_entry:
  assumes "0 < n" "rbuf ed = []" "\<forall>v\<in>set r. Compile L (r_Search v) \<noteq> None"
  shows "fst (ReplaceN L r n ed) = None
       \<and> fdata (snd (ReplaceN L r n ed)) = foldl (entryOver L n) (fdata ed) r"
proof -
  from assms(1) have "n \<noteq> 0" by simp
  from genReplace_result [OF this assms(2,3)] show ?thesis
    by (auto simp: ReplaceN_def)
qed

text \<open>
  C4 on the example of the specification: two entries that match three times each, and
  the limit \<open>1\<close>; one match of each is replaced.
\<close>

theorem ReplaceN_limit_is_per_entry_witness:
  "(0::int) < 1
   \<and> rbuf (NewEdit ''ab cd ab cd ab cd'' None) = []
   \<and> Compile regexp_fragment ''ab'' = Some (RE False [Once (Lit CHR ''a''), Once (Lit CHR ''b'')])
   \<and> Compile regexp_fragment ''cd'' = Some (RE False [Once (Lit CHR ''c''), Once (Lit CHR ''d'')])
   \<and> length (matches regexp_fragment (RE False [Once (Lit CHR ''a''), Once (Lit CHR ''b'')])
               ''ab cd ab cd ab cd'') = 3
   \<and> length (matches regexp_fragment (RE False [Once (Lit CHR ''c''), Once (Lit CHR ''d'')])
               ''ab cd ab cd ab cd'') = 3
   \<and> fst (ReplaceN regexp_fragment
            [\<lparr>r_Search = ''ab'', r_Replace = ''X''\<rparr>, \<lparr>r_Search = ''cd'', r_Replace = ''Y''\<rparr>] 1
            (NewEdit ''ab cd ab cd ab cd'' None)) = None
   \<and> fdata (snd (ReplaceN regexp_fragment
            [\<lparr>r_Search = ''ab'', r_Replace = ''X''\<rparr>, \<lparr>r_Search = ''cd'', r_Replace = ''Y''\<rparr>] 1
            (NewEdit ''ab cd ab cd ab cd'' None))) = ''X Y ab cd ab cd''"
proof -
  let ?ed = "NewEdit ''ab cd ab cd ab cd'' None"
  let ?r = "[\<lparr>r_Search = ''ab'', r_Replace = ''X''\<rparr>, \<lparr>r_Search = ''cd'', r_Replace = ''Y''\<rparr>]"
  have h1: "(0::int) < 1" by simp
  have h2: "rbuf ?ed = []" by (simp add: NewEdit_def)
  have c1: "Compile regexp_fragment ''ab'' = Some (RE False [Once (Lit CHR ''a''), Once (Lit CHR ''b'')])"
    by (simp add: spec_simps)
  have c2: "Compile regexp_fragment ''cd'' = Some (RE False [Once (Lit CHR ''c''), Once (Lit CHR ''d'')])"
    by (simp add: spec_simps)
  have h3: "\<forall>v\<in>set ?r. Compile regexp_fragment (r_Search v) \<noteq> None"
    using c1 c2 by simp
  have m1: "length (matches regexp_fragment (RE False [Once (Lit CHR ''a''), Once (Lit CHR ''b'')])
               ''ab cd ab cd ab cd'') = 3"
    by (simp add: spec_simps)
  have m2: "length (matches regexp_fragment (RE False [Once (Lit CHR ''c''), Once (Lit CHR ''d'')])
               ''ab cd ab cd ab cd'') = 3"
    by (simp add: spec_simps)
  have rhs: "foldl (entryOver regexp_fragment 1) (fdata ?ed) ?r = ''X Y ab cd ab cd''"
    by (simp add: spec_simps NewEdit_def)
  from ReplaceN_limit_is_per_entry [OF h1 h2 h3]
  have "fst (ReplaceN regexp_fragment ?r 1 ?ed) = None"
    "fdata (snd (ReplaceN regexp_fragment ?r 1 ?ed)) = ''X Y ab cd ab cd''"
    by (simp_all only: rhs)
  with h1 h2 c1 c2 m1 m2 show ?thesis by blast
qed

subsection \<open>C5: the limit of ReplaceAtLineN\<close>

text \<open>
  The limit over the lines that end with a newline. The content of a file is a sequence
  of such lines, followed by bytes without a newline (possibly none). \<open>ReplaceAtLineN\<close>
  with a limit \<open>n > 0\<close> succeeds, and the file then begins with those lines in their
  order, each line taken through the entries in order, and each entry whose line pattern
  matches the line replacing up to \<open>n\<close> matches of its search pattern in that line: the
  limit is spent anew for every such line and every entry. When every line of the file
  ends with a newline, this is the whole content.
\<close>

lemma ReplaceAtLineN_on_finished_lines:
  assumes "0 < n" "rbuf ed = []" "fdata ed = concat ls @ frag" "\<forall>l\<in>set ls. is_line l"
    "CHR 0x0A \<notin> set frag"
    "\<forall>v\<in>set rl. Compile L (l_Line v) \<noteq> None \<and> Compile L (l_Search v) \<noteq> None"
  shows "fst (ReplaceAtLineN L rl n ed) = None
       \<and> take (length (concat (map (\<lambda>l. foldl (entryAtLine L n) l rl) ls)))
            (fdata (snd (ReplaceAtLineN L rl n ed)))
           = concat (map (\<lambda>l. foldl (entryAtLine L n) l rl) ls)
       \<and> (frag = [] \<longrightarrow>
            fdata (snd (ReplaceAtLineN L rl n ed))
              = concat (map (\<lambda>l. foldl (entryAtLine L n) l rl) ls))"
proof -
  from assms(1) have "n \<noteq> 0" by simp
  from genReplaceAtLine_result_any [OF this assms(2-6)] show ?thesis
    by (auto simp: ReplaceAtLineN_def)
qed

text \<open>
  An entry that matches three times in each of two lines that end with a newline (and a
  line in between that its line pattern does not match), and the limit \<open>2\<close>: two matches
  are replaced in each of the two lines.
\<close>

lemma ReplaceAtLineN_on_finished_lines_example:
  "(0::int) < 2
   \<and> rbuf (NewEdit ''xaaa\<newline>y\<newline>xbababa\<newline>'' None) = []
   \<and> fdata (NewEdit ''xaaa\<newline>y\<newline>xbababa\<newline>'' None)
       = concat [''xaaa\<newline>'', ''y\<newline>'', ''xbababa\<newline>''] @ []
   \<and> is_line ''xaaa\<newline>'' \<and> is_line ''y\<newline>'' \<and> is_line ''xbababa\<newline>''
   \<and> CHR 0x0A \<notin> set []
   \<and> Compile regexp_fragment ''x'' = Some (RE False [Once (Lit CHR ''x'')])
   \<and> Compile regexp_fragment ''a'' = Some (RE False [Once (Lit CHR ''a'')])
   \<and> Match regexp_fragment (RE False [Once (Lit CHR ''x'')]) ''xaaa\<newline>''
   \<and> length (matches regexp_fragment (RE False [Once (Lit CHR ''a'')]) ''xaaa\<newline>'') = 3
   \<and> Match regexp_fragment (RE False [Once (Lit CHR ''x'')]) ''xbababa\<newline>''
   \<and> length (matches regexp_fragment (RE False [Once (Lit CHR ''a'')]) ''xbababa\<newline>'') = 3
   \<and> fst (ReplaceAtLineN regexp_fragment [\<lparr>l_Line = ''x'', l_Search = ''a'', l_Replace = ''AA''\<rparr>] 2
            (NewEdit ''xaaa\<newline>y\<newline>xbababa\<newline>'' None)) = None
   \<and> fdata (snd (ReplaceAtLineN regexp_fragment
                   [\<lparr>l_Line = ''x'', l_Search = ''a'', l_Replace = ''AA''\<rparr>] 2
                   (NewEdit ''xaaa\<newline>y\<newline>xbababa\<newline>'' None)))
       = ''xAAAAa\<newline>y\<newline>xbAAbAAba\<newline>''"
proof -
  let ?ed = "NewEdit ''xaaa\<newline>y\<newline>xbababa\<newline>'' None"
  let ?ls = "[''xaaa\<newline>'', ''y\<newline>'', ''xbababa\<newline>'']"
  let ?rl = "[\<lparr>l_Line = ''x'', l_Search = ''a'', l_Replace = ''AA''\<rparr>]"
  have h1: "(0::int) < 2" by simp
  have h2: "rbuf ?ed = []" by (simp add: NewEdit_def)
  have h3: "fdata ?ed = concat ?ls @ []" by (simp add: NewEdit_def)
  have l1: "is_line ''xaaa\<newline>''" and l2: "is_line ''y\<newline>''" and l3: "is_line ''xbababa\<newline>''"
    by (simp_all add: is_line_def)
  have h4: "\<forall>l\<in>set ?ls. is_line l" using l1 l2 l3 by simp
  have nf: "CHR 0x0A \<notin> set []" by simp
  have c1: "Compile regexp_fragment ''x'' = Some (RE False [Once (Lit CHR ''x'')])"
    and c2: "Compile regexp_fragment ''a'' = Some (RE False [Once (Lit CHR ''a'')])"
    by (simp_all add: spec_simps)
  have h5: "\<forall>v\<in>set ?rl. Compile regexp_fragment (l_Line v) \<noteq> None
                \<and> Compile regexp_fragment (l_Search v) \<noteq> None"
    using c1 c2 by simp
  have m1: "Match regexp_fragment (RE False [Once (Lit CHR ''x'')]) ''xaaa\<newline>''"
    and m2: "length (matches regexp_fragment (RE False [Once (Lit CHR ''a'')]) ''xaaa\<newline>'') = 3"
    and m3: "Match regexp_fragment (RE False [Once (Lit CHR ''x'')]) ''xbababa\<newline>''"
    and m4: "length (matches regexp_fragment (RE False [Once (Lit CHR ''a'')]) ''xbababa\<newline>'') = 3"
    by (simp_all add: spec_simps)
  have rhs: "concat (map (\<lambda>l. foldl (entryAtLine regexp_fragment 2) l ?rl) ?ls)
               = ''xAAAAa\<newline>y\<newline>xbAAbAAba\<newline>''"
    by (simp add: spec_simps)
  from ReplaceAtLineN_on_finished_lines [OF h1 h2 h3 h4 nf h5]
  have "fst (ReplaceAtLineN regexp_fragment ?rl 2 ?ed) = None"
    "fdata (snd (ReplaceAtLineN regexp_fragment ?rl 2 ?ed)) = ''xAAAAa\<newline>y\<newline>xbAAbAAba\<newline>''"
    by (simp_all only: rhs simp_thms)
  with h1 h2 h3 l1 l2 l3 nf c1 c2 m1 m2 m3 m4 show ?thesis by blast
qed

text \<open>
  C5. Every entry should replace up to \<open>n\<close> matches in every line that its line pattern
  matches: with three matches in each of two such lines and the limit \<open>2\<close>, two in each
  line, four in all. It does so where the lines end with a newline. On the file \<open>xaaa\<close>,
  newline, \<open>xaaa\<close>, whose last line has no newline after it, the line pattern \<open>x\<close>
  matches the last line and the search pattern \<open>a\<close> matches three times in it, but the
  loop over the lines is left at \<open>io.EOF\<close> before the line is looked at: two matches are
  replaced in the first line and none in the last, and the commit writes the first line
  alone. With the newline after the last line, two matches are replaced in each line.
  On the file \<open>xaaa\<close> without a newline nothing is replaced.
\<close>

theorem ReplaceAtLineN_skips_unfinished_line:
  "Match regexp_fragment (RE False [Once (Lit CHR ''x'')]) ''xaaa''
   \<and> length (matches regexp_fragment (RE False [Once (Lit CHR ''a'')]) ''xaaa'') = 3
   \<and> ReplaceAtLineN regexp_fragment [\<lparr>l_Line = ''x'', l_Search = ''a'', l_Replace = ''AA''\<rparr>] 2
         (NewEdit ''xaaa\<newline>xaaa'' None)
       = (None, \<lparr>fdata = ''xAAAAa\<newline>'', fpos = 7, rbuf = [], conf = None,
                 calls = [SysSeek 0, SysRead 4096, SysRead 4096, SysSeek 0,
                          SysWrite ''xAAAAa\<newline>'', SysTruncate 7]\<rparr>)
   \<and> fdata (snd (ReplaceAtLineN regexp_fragment
                   [\<lparr>l_Line = ''x'', l_Search = ''a'', l_Replace = ''AA''\<rparr>] 2
                   (NewEdit ''xaaa\<newline>xaaa\<newline>'' None)))
       = ''xAAAAa\<newline>xAAAAa\<newline>''
   \<and> fdata (snd (ReplaceAtLineN regexp_fragment
                   [\<lparr>l_Line = ''x'', l_Search = ''a'', l_Replace = ''AA''\<rparr>] 2
                   (NewEdit ''xaaa'' None)))
       = ''xaaa''"
  by (simp add: run_simps matches_def matchSpans.simps)

subsection \<open>C6: nothing matches\<close>

text \<open>
  C6. The content of a file is a sequence of lines that end with a newline, followed by
  bytes without a newline (possibly none). If no search pattern matches the content,
  \<open>Replace\<close> and \<open>ReplaceN\<close> commit nothing; if for no line and entry both the line pattern
  and the search pattern match the line, \<open>ReplaceAtLine\<close> and \<open>ReplaceAtLineN\<close> commit
  nothing; if no pattern matches a line, \<open>Comment\<close> and \<open>CommentOut\<close> commit nothing. The
  content stays as it was and no write or truncate is made.
\<close>

theorem no_match_no_commit:
  assumes "rbuf ed = []" "fdata ed = concat ls @ frag" "\<forall>l\<in>set ls. is_line l"
    "CHR 0x0A \<notin> set frag"
  shows "((\<forall>v\<in>set r. \<not> searchMatches L (fdata ed) v) \<longrightarrow>
            no_commit ed (snd (Replace L r ed)) \<and> no_commit ed (snd (ReplaceN L r n ed)))
       \<and> ((\<forall>l\<in>set ls. \<forall>v\<in>set rl. \<not> entryMatches L l v) \<longrightarrow>
            no_commit ed (snd (ReplaceAtLine L rl ed))
            \<and> no_commit ed (snd (ReplaceAtLineN L rl n ed)))
       \<and> ((\<forall>l\<in>set ls. \<not> matchesAny L reLine l) \<longrightarrow>
            no_commit ed (snd (Comment L reLine ed))
            \<and> no_commit ed (snd (CommentOut L reLine ed)))"
  using genReplace_no_match [OF assms(1), of r L]
    genReplaceAtLine_no_match [OF assms, of rl L]
    Comment_no_match [OF assms, of L reLine] CommentOut_no_match [OF assms, of L reLine]
  by (simp add: Replace_def ReplaceN_def ReplaceAtLine_def ReplaceAtLineN_def)

text \<open>C6 on a file of two lines and an unfinished third, with patterns that match nowhere.\<close>

theorem no_match_no_commit_witness:
  "rbuf (NewEdit ''foo\<newline>bar\<newline>baz'' hash) = []
   \<and> fdata (NewEdit ''foo\<newline>bar\<newline>baz'' hash) = concat [''foo\<newline>'', ''bar\<newline>''] @ ''baz''
   \<and> is_line ''foo\<newline>'' \<and> is_line ''bar\<newline>''
   \<and> CHR 0x0A \<notin> set ''baz''
   \<and> \<not> searchMatches regexp_fragment (fdata (NewEdit ''foo\<newline>bar\<newline>baz'' hash))
          \<lparr>r_Search = ''x'', r_Replace = ''y''\<rparr>
   \<and> \<not> entryMatches regexp_fragment ''foo\<newline>'' \<lparr>l_Line = ''foo'', l_Search = ''x'', l_Replace = ''y''\<rparr>
   \<and> \<not> entryMatches regexp_fragment ''bar\<newline>'' \<lparr>l_Line = ''foo'', l_Search = ''x'', l_Replace = ''y''\<rparr>
   \<and> \<not> matchesAny regexp_fragment [''x''] ''foo\<newline>''
   \<and> \<not> matchesAny regexp_fragment [''x''] ''bar\<newline>''
   \<and> no_commit (NewEdit ''foo\<newline>bar\<newline>baz'' hash)
        (snd (Replace regexp_fragment [\<lparr>r_Search = ''x'', r_Replace = ''y''\<rparr>]
               (NewEdit ''foo\<newline>bar\<newline>baz'' hash)))
   \<and> no_commit (NewEdit ''foo\<newline>bar\<newline>baz'' hash)
        (snd (ReplaceN regexp_fragment [\<lparr>r_Search = ''x'', r_Replace = ''y''\<rparr>] 2
               (NewEdit ''foo\<newline>bar\<newline>baz'' hash)))
   \<and> no_commit (NewEdit ''foo\<newline>bar\<newline>baz'' hash)
        (snd (ReplaceAtLine regexp_fragment
               [\<lparr>l_Line = ''foo'', l_Search = ''x'', l_Replace = ''y''\<rparr>]
               (NewEdit ''foo\<newline>bar\<newline>baz'' hash)))
   \<and> no_commit (NewEdit ''foo\<newline>bar\<newline>baz'' hash)
        (snd (ReplaceAtLineN regexp_fragment
               [\<lparr>l_Line = ''foo'', l_Search = ''x'', l_Replace = ''y''\<rparr>] 2
               (NewEdit ''foo\<newline>bar\<newline>baz'' hash)))
   \<and> no_commit (NewEdit ''foo\<newline>bar\<newline>baz'' hash)
        (snd (Comment regexp_fragment [''x''] (NewEdit ''foo\<newline>bar\<newline>baz'' hash)))
   \<and> no_commit (NewEdit ''foo\<newline>bar\<newline>baz'' hash)
        (snd (CommentOut regexp_fragment [''x''] (NewEdit ''foo\<newline>bar\<newline>baz'' hash)))"
proof -
  let ?ed = "NewEdit ''foo\<newline>bar\<newline>baz'' hash"
  let ?ls = "[''foo\<newline>'', ''bar\<newline>'']"
  let ?v = "\<lparr>l_Line = ''foo'', l_Search = ''x'', l_Replace = ''y''\<rparr>"
  have h1: "rbuf ?ed = []" by (simp add: NewEdit_def)
  have h2: "fdata ?ed = concat ?ls @ ''baz''" by (simp add: NewEdit_def)
  have l1: "is_line ''foo\<newline>''" and l2: "is_line ''bar\<newline>''" by (simp_all add: is_line_def)
  have h3: "\<forall>l\<in>set ?ls. is_line l" using l1 l2 by simp
  have h4: "CHR 0x0A \<notin> set ''baz''" by simp
  have s1: "\<not> searchMatches regexp_fragment (fdata ?ed) \<lparr>r_Search = ''x'', r_Replace = ''y''\<rparr>"
    by (simp add: searchMatches_def NewEdit_def spec_simps)
  have h5: "\<forall>v\<in>set [\<lparr>r_Search = ''x'', r_Replace = ''y''\<rparr>].
         \<not> searchMatches regexp_fragment (fdata ?ed) v" using s1 by simp
  have e1: "\<not> entryMatches regexp_fragment ''foo\<newline>'' ?v"
    and e2: "\<not> entryMatches regexp_fragment ''bar\<newline>'' ?v"
    by (simp_all add: entryMatches_def spec_simps)
  have h6: "\<forall>l\<in>set ?ls. \<forall>v\<in>set [?v]. \<not> entryMatches regexp_fragment l v"
    using e1 e2 by simp
  have a1: "\<not> matchesAny regexp_fragment [''x''] ''foo\<newline>''"
    and a2: "\<not> matchesAny regexp_fragment [''x''] ''bar\<newline>''"
    by (simp_all add: spec_simps)
  have h7: "\<forall>l\<in>set ?ls. \<not> matchesAny regexp_fragment [''x''] l" using a1 a2 by simp
  from no_match_no_commit [OF h1 h2 h3 h4,
      of "[\<lparr>r_Search = ''x'', r_Replace = ''y''\<rparr>]" regexp_fragment 2 "[?v]" "[''x'']"]
    h5 h6 h7
  have "no_commit ?ed (snd (Replace regexp_fragment [\<lparr>r_Search = ''x'', r_Replace = ''y''\<rparr>] ?ed))"
    "no_commit ?ed (snd (ReplaceN regexp_fragment [\<lparr>r_Search = ''x'', r_Replace = ''y''\<rparr>] 2 ?ed))"
    "no_commit ?ed (snd (ReplaceAtLine regexp_fragment [?v] ?ed))"
    "no_commit ?ed (snd (ReplaceAtLineN regexp_fragment [?v] 2 ?ed))"
    "no_commit ?ed (snd (Comment regexp_fragment [''x''] ?ed))"
    "no_commit ?ed (snd (CommentOut regexp_fragment [''x''] ?ed))"
    by blast+
  with h1 h2 l1 l2 h4 s1 e1 e2 a1 a2 show ?thesis by blast
qed

subsection \<open>C7: the limit 0\<close>

text \<open>
  C7. \<open>ReplaceN\<close> and \<open>ReplaceAtLineN\<close> with the limit \<open>0\<close> return success and leave the
  editer as it was: no call is made on the file, nothing is read, written or truncated.
\<close>

theorem limit_zero_returns_at_once:
  "ReplaceN L r 0 ed = (None, ed) \<and> ReplaceAtLineN L rl 0 ed = (None, ed)"
  by (simp add: ReplaceN_def ReplaceAtLineN_def genReplace_def genReplaceAtLine_def)

subsection \<open>C8: CommentOut after Comment\<close>

text \<open>
  C8, as stated, fails when a pattern matches a line and no longer matches it once the
  marker stands in front: with the pattern \<open>^foo\<close> and the marker \<open>#\<close>, \<open>Comment\<close> turns
  the line \<open>foo\<close> into \<open># foo\<close>, and \<open>CommentOut\<close> with the same pattern succeeds and
  leaves it so.
\<close>

theorem CommentOut_misses_anchored_pattern:
  "Comment regexp_fragment [''^foo''] (NewEdit ''foo\<newline>'' hash) =
     (None, \<lparr>fdata = ''# foo\<newline>'', fpos = 6, rbuf = [], conf = hash,
              calls = [SysSeek 0, SysRead 4096, SysRead 4096, SysSeek 0,
                       SysWrite ''# foo\<newline>'', SysTruncate 6]\<rparr>)
   \<and> fst (CommentOut regexp_fragment [''^foo'']
           (snd (Comment regexp_fragment [''^foo''] (NewEdit ''foo\<newline>'' hash)))) = None
   \<and> fdata (snd (CommentOut regexp_fragment [''^foo'']
           (snd (Comment regexp_fragment [''^foo''] (NewEdit ''foo\<newline>'' hash)))))
       = ''# foo\<newline>''"
  by (simp add: run_simps hash_def)

text \<open>
  C8, amended. Let every line of the file end with a newline, the marker be non-empty and
  without a newline, and the patterns and the marker pattern of \<open>CommentOut\<close> compile.
  Let every line that a pattern matches be such that a pattern still matches it with
  the marker and a space in front, that the first match of the marker pattern in that
  commented line is the marker and the space in front, and that the marker pattern
  matches nowhere in the line itself. Then \<open>Comment\<close> followed by \<open>CommentOut\<close> with the
  same patterns gives the content back byte for byte.
\<close>

theorem Comment_then_CommentOut_restores:
  assumes "conf ed = Some c" "conf_Comment c \<noteq> []" "CHR 0x0A \<notin> set (conf_Comment c)"
    "rbuf ed = []" "fdata ed = concat ls" "\<forall>l\<in>set ls. is_line l"
    "\<forall>v\<in>set reLine. Compile L v \<noteq> None"
    "Compile L (markerPattern (conf_Comment c)) = Some reS"
    "\<forall>l\<in>set ls. matchesAny L reLine l \<longrightarrow>
        matchesAny L reLine (conf_Comment c @ '' '' @ l)
        \<and> doExecute L reS (conf_Comment c @ '' '' @ l) 0 = Some (0, Suc (length (conf_Comment c)))
        \<and> \<not> Match L reS l"
  shows "fst (Comment L reLine ed) = None
       \<and> fst (CommentOut L reLine (snd (Comment L reLine ed))) = None
       \<and> fdata (snd (CommentOut L reLine (snd (Comment L reLine ed)))) = fdata ed"
proof -
  let ?m = "conf_Comment c"
  let ?g = "commented L reLine ?m"
  let ?s = "markerPattern ?m"
  let ?mk = "\<lambda>v. \<lparr>l_Line = v, l_Search = ?s, l_Replace = []\<rparr>"
  from Comment_result [OF assms(1,2,4-7)] obtain ed1 where ed1:
    "Comment L reLine ed = (None, ed1)" "fdata ed1 = concat (map ?g ls)"
    "rbuf ed1 = []" "conf ed1 = Some c"
    using assms(1) by auto
  have "is_line (?g l)" if "is_line l" for l
    using that assms(3) is_line_prefix [of l "?m @ '' ''"]
    by (simp add: commented_def)
  with assms(6) have lines: "\<forall>l\<in>set (map ?g ls). is_line l" by simp
  have comp: "\<forall>v\<in>set (map ?mk reLine).
                Compile L (l_Line v) \<noteq> None \<and> Compile L (l_Search v) \<noteq> None"
    using assms(7,8) by simp
  have one: "(1::int) \<noteq> 0" by simp
  from genReplaceAtLine_result [OF one ed1(3,2) lines comp] obtain ed2 where ed2:
    "genReplaceAtLine L (map ?mk reLine) 1 ed1 = (None, ed2)"
    "fdata ed2 = concat (map (\<lambda>l. foldl (entryAtLine L 1) l (map ?mk reLine)) (map ?g ls))"
    by blast
  have undo: "foldl (entryAtLine L 1) (?g l) (map ?mk reLine) = l" if mem: "l \<in> set ls" for l
  proof (cases "matchesAny L reLine l")
    case False
    then show ?thesis using uncomment_unmatched [of L reLine l ?s]
      by (simp add: commented_def)
  next
    case True
    with assms(9) mem have h: "matchesAny L reLine ((?m @ '' '') @ l)"
      "doExecute L reS ((?m @ '' '') @ l) 0 = Some (0, length (?m @ '' ''))"
      "\<not> Match L reS l" by auto
    from uncomment_line [OF assms(8) h(3) h(2), of reLine] h(1) True
    show ?thesis by (simp add: commented_def)
  qed
  have "map (\<lambda>l. foldl (entryAtLine L 1) l (map ?mk reLine)) (map ?g ls) = ls"
    using undo by (simp add: map_idI comp_def)
  with ed2 assms(5) have fd: "fdata ed2 = fdata ed" by simp
  have "CommentOut L reLine ed1 = genReplaceAtLine L (map ?mk reLine) 1 ed1"
    using ed1(4) assms(2)
    by (simp add: CommentOut_def ReplaceAtLineN_def markerPattern_def Let_def)
  with ed1 ed2 fd show ?thesis by simp
qed

text \<open>The amended C8 on a file of two lines, of which the pattern matches the first.\<close>

theorem Comment_then_CommentOut_restores_witness:
  "conf (NewEdit ''foo\<newline>bar\<newline>'' hash) = Some \<lparr>conf_Comment = ''#'', conf_Mode = 0\<rparr>
   \<and> conf_Comment \<lparr>conf_Comment = ''#'', conf_Mode = 0\<rparr> \<noteq> []
   \<and> CHR 0x0A \<notin> set (conf_Comment \<lparr>conf_Comment = ''#'', conf_Mode = 0\<rparr>)
   \<and> rbuf (NewEdit ''foo\<newline>bar\<newline>'' hash) = []
   \<and> fdata (NewEdit ''foo\<newline>bar\<newline>'' hash) = concat [''foo\<newline>'', ''bar\<newline>'']
   \<and> is_line ''foo\<newline>'' \<and> is_line ''bar\<newline>''
   \<and> Compile regexp_fragment ''foo''
       = Some (RE False [Once (Lit CHR ''f''), Once (Lit CHR ''o''), Once (Lit CHR ''o'')])
   \<and> Compile regexp_fragment (markerPattern ''#'')
       = Some (RE False [Star SpaceClass, Once (Lit CHR ''#''), Star SpaceClass])
   \<and> matchesAny regexp_fragment [''foo''] ''foo\<newline>''
   \<and> matchesAny regexp_fragment [''foo''] (''#'' @ '' '' @ ''foo\<newline>'')
   \<and> doExecute regexp_fragment (RE False [Star SpaceClass, Once (Lit CHR ''#''), Star SpaceClass])
         (''#'' @ '' '' @ ''foo\<newline>'') 0 = Some (0, Suc (length ''#''))
   \<and> \<not> Match regexp_fragment (RE False [Star SpaceClass, Once (Lit CHR ''#''), Star SpaceClass])
         ''foo\<newline>''
   \<and> \<not> matchesAny regexp_fragment [''foo''] ''bar\<newline>''
   \<and> fdata (snd (Comment regexp_fragment [''foo''] (NewEdit ''foo\<newline>bar\<newline>'' hash)))
       = ''# foo\<newline>bar\<newline>''
   \<and> fst (CommentOut regexp_fragment [''foo'']
            (snd (Comment regexp_fragment [''foo''] (NewEdit ''foo\<newline>bar\<newline>'' hash)))) = None
   \<and> fdata (snd (CommentOut regexp_fragment [''foo'']
            (snd (Comment regexp_fragment [''foo''] (NewEdit ''foo\<newline>bar\<newline>'' hash)))))
       = ''foo\<newline>bar\<newline>''"
proof -
  let ?c = "\<lparr>conf_Comment = ''#'', conf_Mode = 0\<rparr>"
  let ?ed = "NewEdit ''foo\<newline>bar\<newline>'' hash"
  let ?ls = "[''foo\<newline>'', ''bar\<newline>'']"
  let ?reS = "RE False [Star SpaceClass, Once (Lit CHR ''#''), Star SpaceClass]"
  have h1: "conf ?ed = Some ?c" by (simp add: NewEdit_def hash_def)
  have h2: "conf_Comment ?c \<noteq> []" by simp
  have h3: "CHR 0x0A \<notin> set (conf_Comment ?c)" by simp
  have h4: "rbuf ?ed = []" by (simp add: NewEdit_def)
  have h5: "fdata ?ed = concat ?ls" by (simp add: NewEdit_def)
  have l1: "is_line ''foo\<newline>''" and l2: "is_line ''bar\<newline>''" by (simp_all add: is_line_def)
  have h6: "\<forall>l\<in>set ?ls. is_line l" using l1 l2 by simp
  have c1: "Compile regexp_fragment ''foo''
       = Some (RE False [Once (Lit CHR ''f''), Once (Lit CHR ''o''), Once (Lit CHR ''o'')])"
    by (simp add: spec_simps)
  have h7: "\<forall>v\<in>set [''foo'']. Compile regexp_fragment v \<noteq> None" using c1 by simp
  have c2: "Compile regexp_fragment (markerPattern ''#'') = Some ?reS"
    by (simp add: spec_simps)
  have h8: "Compile regexp_fragment (markerPattern (conf_Comment ?c)) = Some ?reS"
    using c2 by simp
  have a1: "matchesAny regexp_fragment [''foo''] ''foo\<newline>''"
    and a2: "matchesAny regexp_fragment [''foo''] (''#'' @ '' '' @ ''foo\<newline>'')"
    and a3: "doExecute regexp_fragment ?reS (''#'' @ '' '' @ ''foo\<newline>'') 0 = Some (0, Suc (length ''#''))"
    and a4: "\<not> Match regexp_fragment ?reS ''foo\<newline>''"
    and a5: "\<not> matchesAny regexp_fragment [''foo''] ''bar\<newline>''"
    by (simp_all add: spec_simps)
  have h9: "\<forall>l\<in>set ?ls. matchesAny regexp_fragment [''foo''] l \<longrightarrow>
        matchesAny regexp_fragment [''foo''] (conf_Comment ?c @ '' '' @ l)
        \<and> doExecute regexp_fragment ?reS (conf_Comment ?c @ '' '' @ l) 0
             = Some (0, Suc (length (conf_Comment ?c)))
        \<and> \<not> Match regexp_fragment ?reS l"
    using a1 a2 a3 a4 a5 by simp
  have mid: "fdata (snd (Comment regexp_fragment [''foo''] ?ed)) = ''# foo\<newline>bar\<newline>''"
    by (simp add: run_simps hash_def)
  from Comment_then_CommentOut_restores [OF h1 h2 h3 h4 h5 h6 h7 h8 h9]
  have "fst (CommentOut regexp_fragment [''foo''] (snd (Comment regexp_fragment [''foo''] ?ed))) = None"
    "fdata (snd (CommentOut regexp_fragment [''foo''] (snd (Comment regexp_fragment [''foo''] ?ed))))
       = ''foo\<newline>bar\<newline>''"
    by (simp_all add: NewEdit_def)
  with h1 h2 h3 h4 h5 l1 l2 c1 c2 a1 a2 a3 a4 a5 mid show ?thesis by blast
qed

subsection \<open>C9: no comment marker\<close>

text \<open>
  C9. When the editer has no configuration, or one with an empty comment marker,
  \<open>Comment\<close> and \<open>CommentOut\<close> return \<open>errComment\<close> and leave the editer as it was: no
  call is made on the file.
\<close>

theorem no_marker_errComment:
  "(case conf ed of None \<Rightarrow> True | Some c \<Rightarrow> conf_Comment c = []) \<Longrightarrow>
     Comment L reLine ed = (Some errComment, ed) \<and> CommentOut L reLine ed = (Some errComment, ed)"
  by (simp add: Comment_def CommentOut_def split: option.splits)

text \<open>C9 with no configuration, and with a configuration whose marker is empty.\<close>

theorem no_marker_errComment_witness:
  "(case conf (NewEdit ''foo\<newline>'' None) of None \<Rightarrow> True | Some c \<Rightarrow> conf_Comment c = [])
   \<and> Comment regexp_fragment [''foo''] (NewEdit ''foo\<newline>'' None)
       = (Some errComment, NewEdit ''foo\<newline>'' None)
   \<and> CommentOut regexp_fragment [''foo''] (NewEdit ''foo\<newline>'' None)
       = (Some errComment, NewEdit ''foo\<newline>'' None)
   \<and> (case conf (NewEdit ''foo\<newline>'' (Some \<lparr>conf_Comment = [], conf_Mode = 0\<rparr>)) of
         None \<Rightarrow> True | Some c \<Rightarrow> conf_Comment c = [])
   \<and> Comment regexp_fragment [''foo'']
         (NewEdit ''foo\<newline>'' (Some \<lparr>conf_Comment = [], conf_Mode = 0\<rparr>))
       = (Some errComment, NewEdit ''foo\<newline>'' (Some \<lparr>conf_Comment = [], conf_Mode = 0\<rparr>))
   \<and> CommentOut regexp_fragment [''foo'']
         (NewEdit ''foo\<newline>'' (Some \<lparr>conf_Comment = [], conf_Mode = 0\<rparr>))
       = (Some errComment, NewEdit ''foo\<newline>'' (Some \<lparr>conf_Comment = [], conf_Mode = 0\<rparr>))"
proof -
  let ?e1 = "NewEdit ''foo\<newline>'' None"
  let ?e2 = "NewEdit ''foo\<newline>'' (Some \<lparr>conf_Comment = [], conf_Mode = 0\<rparr>)"
  have h1: "case conf ?e1 of None \<Rightarrow> True | Some c \<Rightarrow> conf_Comment c = []"
    by (simp add: NewEdit_def)
  have h2: "case conf ?e2 of None \<Rightarrow> True | Some c \<Rightarrow> conf_Comment c = []"
    by (simp add: NewEdit_def)
  from no_marker_errComment [OF h1, of regexp_fragment "[''foo'']"]
       no_marker_errComment [OF h2, of regexp_fragment "[''foo'']"] h1 h2
  show ?thesis by blast
qed

subsection \<open>C10: Comment twice\<close>

text \<open>
  \<open>Comment\<close> over the lines that end with a newline. The content of a file is a sequence
  of such lines, followed by bytes without a newline (possibly none). After \<open>Comment\<close> the
  file begins with those lines in their order, every line that one of the patterns
  matches with the marker and a space in front, whatever the line begins with, and the
  other lines as they are. After a second \<open>Comment\<close> it begins with the lines on which
  this was done twice: a line that the patterns match before and after the first call
  carries the marker and the space twice. When every line of the file ends with a
  newline, this is the whole content each time.
\<close>

lemma Comment_on_finished_lines:
  assumes "conf ed = Some c" "conf_Comment c \<noteq> []" "CHR 0x0A \<notin> set (conf_Comment c)"
    "rbuf ed = []" "fdata ed = concat ls @ frag" "\<forall>l\<in>set ls. is_line l"
    "CHR 0x0A \<notin> set frag" "\<forall>v\<in>set reLine. Compile L v \<noteq> None"
  shows "take (length (concat (map (commented L reLine (conf_Comment c)) ls)))
            (fdata (snd (Comment L reLine ed)))
           = concat (map (commented L reLine (conf_Comment c)) ls)
       \<and> take (length (concat (map (\<lambda>l. commented L reLine (conf_Comment c)
                                           (commented L reLine (conf_Comment c) l)) ls)))
            (fdata (snd (Comment L reLine (snd (Comment L reLine ed)))))
           = concat (map (\<lambda>l. commented L reLine (conf_Comment c)
                                 (commented L reLine (conf_Comment c) l)) ls)
       \<and> (frag = [] \<longrightarrow>
            fdata (snd (Comment L reLine ed))
              = concat (map (commented L reLine (conf_Comment c)) ls)
            \<and> fdata (snd (Comment L reLine (snd (Comment L reLine ed))))
              = concat (map (\<lambda>l. commented L reLine (conf_Comment c)
                                    (commented L reLine (conf_Comment c) l)) ls))
       \<and> (\<forall>l\<in>set ls. matchesAny L reLine l \<and> matchesAny L reLine (conf_Comment c @ '' '' @ l) \<longrightarrow>
             commented L reLine (conf_Comment c) (commented L reLine (conf_Comment c) l)
               = conf_Comment c @ '' '' @ conf_Comment c @ '' '' @ l)"
proof -
  let ?g = "commented L reLine (conf_Comment c)"
  from Comment_result_any [OF assms(1,2,4-8)] obtain ed1 rest1 where ed1:
    "Comment L reLine ed = (None, ed1)" "fdata ed1 = concat (map ?g ls) @ rest1"
    "frag = [] \<longrightarrow> rest1 = []" "CHR 0x0A \<notin> set rest1"
    "rbuf ed1 = []" "conf ed1 = Some c"
    using assms(1) by auto
  have "is_line (?g l)" if "is_line l" for l
    using that assms(3) is_line_prefix [of l "conf_Comment c @ '' ''"]
    by (simp add: commented_def)
  with assms(6) have lines: "\<forall>l\<in>set (map ?g ls). is_line l" by simp
  from Comment_result_any [OF ed1(6) assms(2) ed1(5,2) lines ed1(4) assms(8)] obtain ed2 rest2 where
    ed2: "Comment L reLine ed1 = (None, ed2)"
      "fdata ed2 = concat (map ?g (map ?g ls)) @ rest2" "rest1 = [] \<longrightarrow> rest2 = []"
    by auto
  have fd2: "fdata ed2 = concat (map (\<lambda>l. ?g (?g l)) ls) @ rest2"
    using ed2(2) by (simp add: comp_def)
  have twice: "\<forall>l\<in>set ls. matchesAny L reLine l \<and> matchesAny L reLine (conf_Comment c @ '' '' @ l) \<longrightarrow>
             ?g (?g l) = conf_Comment c @ '' '' @ conf_Comment c @ '' '' @ l"
    by (simp add: commented_def)
  from ed1 ed2(1,3) fd2 twice show ?thesis by simp
qed

text \<open>A file of two lines that end with a newline: the first is matched, and commented twice.\<close>

lemma Comment_on_finished_lines_example:
  "conf (NewEdit ''foo\<newline>bar\<newline>'' hash) = Some \<lparr>conf_Comment = ''#'', conf_Mode = 0\<rparr>
   \<and> conf_Comment \<lparr>conf_Comment = ''#'', conf_Mode = 0\<rparr> \<noteq> []
   \<and> CHR 0x0A \<notin> set (conf_Comment \<lparr>conf_Comment = ''#'', conf_Mode = 0\<rparr>)
   \<and> rbuf (NewEdit ''foo\<newline>bar\<newline>'' hash) = []
   \<and> fdata (NewEdit ''foo\<newline>bar\<newline>'' hash) = concat [''foo\<newline>'', ''bar\<newline>''] @ []
   \<and> is_line ''foo\<newline>'' \<and> is_line ''bar\<newline>''
   \<and> CHR 0x0A \<notin> set []
   \<and> Compile regexp_fragment ''foo''
       = Some (RE False [Once (Lit CHR ''f''), Once (Lit CHR ''o''), Once (Lit CHR ''o'')])
   \<and> matchesAny regexp_fragment [''foo''] ''foo\<newline>''
   \<and> matchesAny regexp_fragment [''foo''] (''#'' @ '' '' @ ''foo\<newline>'')
   \<and> fdata (snd (Comment regexp_fragment [''foo''] (NewEdit ''foo\<newline>bar\<newline>'' hash)))
       = ''# foo\<newline>bar\<newline>''
   \<and> fdata (snd (Comment regexp_fragment [''foo'']
                   (snd (Comment regexp_fragment [''foo''] (NewEdit ''foo\<newline>bar\<newline>'' hash)))))
       = ''# # foo\<newline>bar\<newline>''"
proof -
  let ?c = "\<lparr>conf_Comment = ''#'', conf_Mode = 0\<rparr>"
  let ?ed = "NewEdit ''foo\<newline>bar\<newline>'' hash"
  let ?ls = "[''foo\<newline>'', ''bar\<newline>'']"
  have h1: "conf ?ed = Some ?c" by (simp add: NewEdit_def hash_def)
  have h2: "conf_Comment ?c \<noteq> []" by simp
  have h3: "CHR 0x0A \<notin> set (conf_Comment ?c)" by simp
  have h4: "rbuf ?ed = []" by (simp add: NewEdit_def)
  have h5: "fdata ?ed = concat ?ls @ []" by (simp add: NewEdit_def)
  have l1: "is_line ''foo\<newline>''" and l2: "is_line ''bar\<newline>''" by (simp_all add: is_line_def)
  have h6: "\<forall>l\<in>set ?ls. is_line l" using l1 l2 by simp
  have nf: "CHR 0x0A \<notin> set []" by simp
  have c1: "Compile regexp_fragment ''foo''
       = Some (RE False [Once (Lit CHR ''f''), Once (Lit CHR ''o''), Once (Lit CHR ''o'')])"
    by (simp add: spec_simps)
  have h7: "\<forall>v\<in>set [''foo'']. Compile regexp_fragment v \<noteq> None" using c1 by simp
  have h8: "matchesAny regexp_fragment [''foo''] ''foo\<newline>''" by (simp add: spec_simps)
  have h9: "matchesAny regexp_fragment [''foo''] (''#'' @ '' '' @ ''foo\<newline>'')"
    by (simp add: spec_simps)
  have once: "concat (map (commented regexp_fragment [''foo''] (conf_Comment ?c)) ?ls)
                = ''# foo\<newline>bar\<newline>''"
    by (simp add: spec_simps)
  have twice: "concat (map (\<lambda>l. commented regexp_fragment [''foo''] (conf_Comment ?c)
                                   (commented regexp_fragment [''foo''] (conf_Comment ?c) l)) ?ls)
                = ''# # foo\<newline>bar\<newline>''"
    by (simp add: spec_simps)
  from Comment_on_finished_lines [OF h1 h2 h3 h4 h5 h6 nf h7]
  have "fdata (snd (Comment regexp_fragment [''foo''] ?ed)) = ''# foo\<newline>bar\<newline>''"
    "fdata (snd (Comment regexp_fragment [''foo''] (snd (Comment regexp_fragment [''foo''] ?ed))))
       = ''# # foo\<newline>bar\<newline>''"
    by (simp_all only: once twice simp_thms)
  with h1 h2 h3 h4 h5 l1 l2 nf c1 h8 h9 show ?thesis by blast
qed

text \<open>
  C10. \<open>Comment\<close> should put the marker and a space in front of every line that one of the
  patterns matches, and do so again on a second call. It does so where the lines end with
  a newline. On the file \<open>foo\<close>, newline, \<open>bar\<close>, whose last line has no newline after it,
  the pattern \<open>bar\<close> matches the last line, but the loop over the lines is left at
  \<open>io.EOF\<close> before the line is looked at: \<open>Comment\<close> with the pattern \<open>bar\<close> commits
  nothing and leaves the line without the marker, where with the newline after \<open>bar\<close> it
  puts the marker in front. With the patterns \<open>o\<close> and \<open>bar\<close>, the first call commits the
  commented first line alone, and the second call comments that line again: the line
  \<open>bar\<close> is never commented, and is gone from the file.
\<close>

theorem Comment_skips_unfinished_line:
  "Match regexp_fragment (RE False [Once (Lit CHR ''b''), Once (Lit CHR ''a''), Once (Lit CHR ''r'')])
     ''bar''
   \<and> Comment regexp_fragment [''bar''] (NewEdit ''foo\<newline>bar'' hash)
       = (None, \<lparr>fdata = ''foo\<newline>bar'', fpos = 7, rbuf = [], conf = hash,
                 calls = [SysSeek 0, SysRead 4096, SysRead 4096]\<rparr>)
   \<and> fdata (snd (Comment regexp_fragment [''bar''] (NewEdit ''foo\<newline>bar\<newline>'' hash)))
       = ''foo\<newline># bar\<newline>''
   \<and> fdata (snd (Comment regexp_fragment [''o'', ''bar''] (NewEdit ''foo\<newline>bar'' hash)))
       = ''# foo\<newline>''
   \<and> fdata (snd (Comment regexp_fragment [''o'', ''bar'']
                   (snd (Comment regexp_fragment [''o'', ''bar''] (NewEdit ''foo\<newline>bar'' hash)))))
       = ''# # foo\<newline>''"
  by (simp add: run_simps hash_def)

end
